theory Spec2Isabelle
  imports Complex_Main "HOL-Library.Word" "HOL-Library.Multiset"
begin

unbundle bit_operations_syntax

section \<open>Deterministic sequencer (tasks.js, main.js)\<close>

text \<open>
  JavaScript numbers that are only ever 32-bit integers are \<open>32 word\<close>; numbers that
  carry integral millisecond counts are \<open>int\<close>; the few fractional intermediate values
  (\<open>rng()\<close>, \<open>Math.random()\<close>, the scale factor of \<open>getSummary\<close>) are \<open>rat\<close>, that is,
  the exact value of the expression.  Task codes and session codes are \<open>string\<close>.
  Where the source computes with doubles the model is exact: a 32-bit integer divided
  by \<open>2^32\<close> and multiplied by an index below \<open>2^21\<close> is representable, and so are
  the scale factors and products of the concrete runs at the end of the definitions.
\<close>

definition DESKTOP_TASKS :: "string list" where
  "DESKTOP_TASKS = [''RC'', ''MRT'', ''ASLCT'', ''VCN'', ''SN'', ''ID'']"

definition MOBILE_TASKS :: "string list" where
  "MOBILE_TASKS = [''RC'', ''MRT'', ''ASLCT'', ''SN'', ''ID'']"

text \<open>The keys of the \<open>TASKS\<close> table, with the \<open>skilled\<close> flag of each entry.\<close>

definition TASKS :: "string \<rightharpoonup> bool" where
  "TASKS = [''RC'' \<mapsto> True, ''MRT'' \<mapsto> True, ''ASLCT'' \<mapsto> True, ''VCN'' \<mapsto> True,
            ''SN'' \<mapsto> True, ''ID'' \<mapsto> False, ''DEMO'' \<mapsto> False]"

text \<open>\<open>Math.imul\<close>: the low 32 bits of the product.\<close>

definition imul :: "32 word \<Rightarrow> 32 word \<Rightarrow> 32 word" where
  "imul x y = x * y"

text \<open>
  One call of the closure returned by \<open>mulberry32(a)\<close>: the captured variable \<open>a\<close> is
  the state; the call returns the number \<open>((t ^ t >>> 14) >>> 0) / 4294967296\<close> and
  leaves the new \<open>a\<close> behind.  The unsigned shift binds tighter than xor and or.
\<close>

definition mulberry32_call :: "32 word \<Rightarrow> rat \<times> 32 word" where
  "mulberry32_call a0 =
     (let a = a0 + 0x6D2B79F5;
          t = imul (a XOR drop_bit 15 a) (1 OR a);
          t' = t XOR (t + imul (t XOR drop_bit 7 t) (61 OR t))
      in (rat_of_nat (unat (t' XOR drop_bit 14 t')) / 4294967296, a))"

text \<open>
  The loop \<open>for (let i = a.length - 1; i > 0; i--)\<close> of \<open>shuffleWithSeed\<close>, at loop
  index \<open>i\<close> with generator state \<open>a\<close>.  The destructuring swap reads both cells
  before it writes either.
\<close>

fun shuffle_loop :: "nat \<Rightarrow> 32 word \<Rightarrow> 'a list \<Rightarrow> 'a list" where
  "shuffle_loop 0 a xs = xs"
| "shuffle_loop (Suc k) a xs =
     (let (r, a') = mulberry32_call a;
          i = Suc k;
          j = nat \<lfloor>r * rat_of_nat (i + 1)\<rfloor>
      in shuffle_loop k a' (xs[i := xs ! j, j := xs ! i]))"

text \<open>\<open>seed\<close> is an integral number; \<open>a |= 0\<close> reduces it to 32 bits.\<close>

definition shuffleWithSeed :: "'a list \<Rightarrow> int \<Rightarrow> 'a list" where
  "shuffleWithSeed array seed = shuffle_loop (length array - 1) (word_of_int seed) array"

definition ensureDemographicsLast :: "string list \<Rightarrow> string list" where
  "ensureDemographicsLast sequence = filter (\<lambda>code. code \<noteq> ''DEMO'') sequence @ [''DEMO'']"

text \<open>
  \<open>hashCode\<close>: \<open>hash = (hash << 5) - hash + c; hash |= 0\<close> for every code unit.  The
  result is the signed reading of the 32-bit value.
\<close>

definition hashCode :: "string \<Rightarrow> int" where
  "hashCode str =
     sint (foldl (\<lambda>hash c. push_bit 5 hash - hash + word_of_nat (of_char c)) (0 :: 32 word) str)"

text \<open>
  The sequencing lines of \<open>createNewSession\<close>:
  \<open>seed = Math.abs(hashCode(code))\<close>, the shuffle of the device's list, and
  \<open>ensureDemographicsLast\<close>.
\<close>

definition sessionSeed :: "string \<Rightarrow> int" where
  "sessionSeed code = \<bar>hashCode code\<bar>"

definition sessionSequence :: "bool \<Rightarrow> string \<Rightarrow> string list" where
  "sessionSequence isMobile code =
     ensureDemographicsLast
       (shuffleWithSeed (if isMobile then MOBILE_TASKS else DESKTOP_TASKS) (sessionSeed code))"


subsection \<open>Session codes\<close>

text \<open>
  \<open>generateCode\<close> draws eight characters; \<open>rnd i\<close> is the value of the \<open>i\<close>-th call of
  \<open>Math.random()\<close>.  \<open>charAt\<close> outside the string is the empty string.
\<close>

definition code_chars :: string where
  "code_chars = ''ABCDEFGHIJKLMNOPQRSTUVWXYZ0123456789''"

definition charAt :: "string \<Rightarrow> int \<Rightarrow> string" where
  "charAt s k = (if 0 \<le> k \<and> k < int (length s) then [s ! nat k] else [])"

definition generateCode :: "(nat \<Rightarrow> rat) \<Rightarrow> string" where
  "generateCode rnd =
     foldl (\<lambda>code i. code @ charAt code_chars \<lfloor>rnd i * rat_of_nat (length code_chars)\<rfloor>)
       [] [0, 1, 2, 3, 4, 5, 6, 7]"

text \<open>
  \<open>CODE_REGEX = /^[A-Z0-9]{8}$/\<close> as a test on strings, and the two string methods that
  \<open>resumeSession\<close> applies before it (on the 8-bit characters of \<open>string\<close>:
  white space is TAB, LF, VT, FF, CR, SPACE and NBSP; the letters with an upper case are
  \<open>a\<close> to \<open>z\<close>).
\<close>

definition is_code_char :: "char \<Rightarrow> bool" where
  "is_code_char c =
     ((65 \<le> (of_char c :: nat) \<and> (of_char c :: nat) \<le> 90) \<or>
      (48 \<le> (of_char c :: nat) \<and> (of_char c :: nat) \<le> 57))"

definition CODE_REGEX_test :: "string \<Rightarrow> bool" where
  "CODE_REGEX_test s = (length s = 8 \<and> list_all is_code_char s)"

definition is_space :: "char \<Rightarrow> bool" where
  "is_space c = ((of_char c :: nat) \<in> {9, 10, 11, 12, 13, 32, 160})"

definition trim :: "string \<Rightarrow> string" where
  "trim s = rev (dropWhile is_space (rev (dropWhile is_space s)))"

definition toUpperCase :: "string \<Rightarrow> string" where
  "toUpperCase s =
     map (\<lambda>c. if 97 \<le> (of_char c :: nat) \<and> (of_char c :: nat) \<le> 122
               then char_of ((of_char c :: nat) - 32) else c) s"

text \<open>The entry check of \<open>resumeSession\<close>: the code it looks up, if the input passes.\<close>

definition resume_entry :: "string \<Rightarrow> string option" where
  "resume_entry input =
     (let code = toUpperCase (trim input)
      in if CODE_REGEX_test code then Some code else None)"


section \<open>Timer state machine (createTimer)\<close>

text \<open>
  The object returned by \<open>createTimer()\<close>.  Times are milliseconds as \<open>Date.now()\<close>
  returns them; \<open>null\<close> is \<open>None\<close>.  Every operation takes the clock reading \<open>now\<close> of
  the call: all reads of \<open>Date.now()\<close> inside one synchronous call are given the same
  value.  The clock itself is the wall clock and is not constrained.  The interval
  handle is outside the record: \<open>tick\<close> is an operation that the scheduler (or anybody
  else) invokes.
\<close>

record timer =
  startTime :: "int option"
  endTime :: "int option"
  activeTime :: int
  lastActivity :: int
  isPaused :: bool
  pauseReason :: "string option"
  pauseCount :: int
  inactivityTime :: int
  pausedTime :: int
  pauseStart :: "int option"
  lastTick :: int
  externalTime :: int

definition createTimer :: timer where
  "createTimer = \<lparr> startTime = None, endTime = None, activeTime = 0, lastActivity = 0,
     isPaused = False, pauseReason = None, pauseCount = 0, inactivityTime = 0,
     pausedTime = 0, pauseStart = None, lastTick = 0, externalTime = 0 \<rparr>"

text \<open>JavaScript truthiness of a number-or-null, and its value in arithmetic.\<close>

definition truthy :: "int option \<Rightarrow> bool" where
  "truthy v = (case v of None \<Rightarrow> False | Some n \<Rightarrow> n \<noteq> 0)"

definition num :: "int option \<Rightarrow> int" where
  "num v = (case v of None \<Rightarrow> 0 | Some n \<Rightarrow> n)"

definition start :: "int \<Rightarrow> timer \<Rightarrow> timer" where
  "start now tm = tm\<lparr> startTime := Some now, lastActivity := now, lastTick := now,
     activeTime := 0, inactivityTime := 0, pausedTime := 0, pauseCount := 0,
     isPaused := False, pauseStart := None \<rparr>"

definition pause :: "string \<Rightarrow> int \<Rightarrow> timer \<Rightarrow> timer" where
  "pause reason now tm =
     (if \<not> isPaused tm
      then tm\<lparr> isPaused := True, pauseReason := Some reason,
               pauseCount := pauseCount tm + 1, pauseStart := Some now \<rparr>
      else tm)"

definition resume :: "int \<Rightarrow> timer \<Rightarrow> timer" where
  "resume now tm =
     (if isPaused tm
      then (let tm1 = (if pauseReason tm = Some ''manual'' \<and> truthy (pauseStart tm)
                       then tm\<lparr> pausedTime := pausedTime tm + (now - num (pauseStart tm)) \<rparr>
                       else tm)
            in tm1\<lparr> isPaused := False, pauseReason := None,
                    lastActivity := now, lastTick := now \<rparr>)
      else tm)"

definition recordActivity :: "int \<Rightarrow> timer \<Rightarrow> timer" where
  "recordActivity now tm =
     (let tm1 = tm\<lparr> lastActivity := now \<rparr>
      in if isPaused tm1 \<and> pauseReason tm1 = Some ''inactivity'' then resume now tm1 else tm1)"

text \<open>
  The \<open>onInactivity\<close> field: \<open>null\<close> for a fresh timer and for \<open>sessionTimer\<close>;
  \<open>showInactivityPrompt\<close> for \<open>taskTimer\<close>, whose effect on the timer that called it is
  \<open>resume(); recordActivity()\<close> when the participant confirms the prompt.  \<open>Some b\<close>
  is the prompt with answer \<open>b\<close>.
\<close>

definition showInactivityPrompt :: "bool \<Rightarrow> int \<Rightarrow> timer \<Rightarrow> timer" where
  "showInactivityPrompt confirmed now tm =
     (if confirmed then recordActivity now (resume now tm) else tm)"

definition tick :: "bool option \<Rightarrow> bool \<Rightarrow> int \<Rightarrow> timer \<Rightarrow> timer" where
  "tick onInactivity hidden now tm =
     (let tm1 =
        (if \<not> hidden \<and> \<not> isPaused tm then
           (let timeSinceLastActivity = now - lastActivity tm;
                timeSinceTick = now - lastTick tm
            in if timeSinceLastActivity > 120000 then
                 (let tm2 = pause ''inactivity'' now tm
                  in case onInactivity of
                       None \<Rightarrow> tm2
                     | Some confirmed \<Rightarrow> showInactivityPrompt confirmed now tm2)
               else if timeSinceLastActivity < 5000 then
                 tm\<lparr> activeTime := activeTime tm + timeSinceTick \<rparr>
               else
                 tm\<lparr> inactivityTime := inactivityTime tm + timeSinceTick \<rparr>)
         else if isPaused tm \<and> pauseReason tm = Some ''inactivity'' then
           tm\<lparr> inactivityTime := inactivityTime tm + (now - lastTick tm) \<rparr>
         else tm)
      in tm1\<lparr> lastTick := now \<rparr>)"

definition stop :: "int \<Rightarrow> timer \<Rightarrow> timer" where
  "stop now tm =
     (let tm1 = (if isPaused tm \<and> truthy (pauseStart tm) \<and> pauseReason tm = Some ''manual''
                 then tm\<lparr> pausedTime := pausedTime tm + (now - num (pauseStart tm)) \<rparr>
                 else tm)
      in tm1\<lparr> endTime := Some now \<rparr>)"

text \<open>
  The object that \<open>getSummary()\<close> returns.  \<open>s_start\<close> and \<open>s_end\<close> are the instants whose
  ISO rendering the source returns.  \<open>Math.round x\<close> is \<open>\<lfloor>x + 1/2\<rfloor>\<close>.
\<close>

record summary =
  s_start :: int
  s_end :: int
  elapsed :: int
  active :: int
  s_pauseCount :: int
  paused :: int
  inactive :: int
  activity :: rat

definition Math_round :: "rat \<Rightarrow> int" where
  "Math_round x = \<lfloor>x + 1 / 2\<rfloor>"

definition getSummary :: "int \<Rightarrow> timer \<Rightarrow> summary" where
  "getSummary now tm =
     (let end = (if truthy (endTime tm) then num (endTime tm) else now);
          elapsed = end - num (startTime tm);
          active = min (activeTime tm) elapsed;
          paused = min (pausedTime tm) elapsed;
          inactive = min (inactivityTime tm) elapsed;
          total = active + paused + inactive
      in if total > elapsed then
           (let scale = rat_of_int elapsed / rat_of_int total
            in \<lparr> s_start = num (startTime tm), s_end = end, elapsed = elapsed,
                 active = Math_round (rat_of_int active * scale),
                 s_pauseCount = pauseCount tm,
                 paused = Math_round (rat_of_int paused * scale),
                 inactive = Math_round (rat_of_int inactive * scale),
                 activity = rat_of_int active / rat_of_int elapsed * 100 \<rparr>)
         else
           \<lparr> s_start = num (startTime tm), s_end = end, elapsed = elapsed,
             active = active, s_pauseCount = pauseCount tm, paused = paused,
             inactive = inactive,
             activity = (if elapsed > 0
                         then rat_of_int active / rat_of_int elapsed * 100 else 0) \<rparr>)"

text \<open>Sequences of calls on one timer, each with the clock reading of the call.\<close>

datatype timer_op =
    Start int
  | Tick "bool option" bool int
  | RecordActivity int
  | Pause string int
  | Resume int
  | Stop int

fun apply_op :: "timer \<Rightarrow> timer_op \<Rightarrow> timer" where
  "apply_op tm (Start now) = start now tm"
| "apply_op tm (Tick cb hidden now) = tick cb hidden now tm"
| "apply_op tm (RecordActivity now) = recordActivity now tm"
| "apply_op tm (Pause reason now) = pause reason now tm"
| "apply_op tm (Resume now) = resume now tm"
| "apply_op tm (Stop now) = stop now tm"

definition run_ops :: "timer \<Rightarrow> timer_op list \<Rightarrow> timer" where
  "run_ops tm ops = foldl apply_op tm ops"

fun is_stop_or_start :: "timer_op \<Rightarrow> bool" where
  "is_stop_or_start (Start now) = True"
| "is_stop_or_start (Stop now) = True"
| "is_stop_or_start other = False"



section \<open>Session store (main.js)\<close>

text \<open>
  The global \<open>state\<close> object, with the fields that creation, completion, saving and
  resuming read or write.  The recording substate, the upload queue and the heartbeat
  bookkeeping are not touched by these functions and are left out.  \<open>lastActivity\<close>
  holds the instant whose ISO string the source stores.
\<close>

record state =
  sessionCode :: string
  participantID :: string
  email :: string
  hearingStatus :: string
  fluency :: string
  consentCode :: string
  consentConfirmed :: bool
  sequenceIndex :: int
  sequence :: "string list"
  isMobile :: bool
  currentTaskIndex :: nat
  completedTasks :: "string list"
  skippedTasks :: "string list"
  st_startTime :: "int option"
  totalTimeSpent :: int
  totalActiveTime :: int
  st_lastActivity :: "int option"
  currentTaskType :: string

definition initial_state :: state where
  "initial_state = \<lparr> sessionCode = [], participantID = [], email = [], hearingStatus = [],
     fluency = [], consentCode = [], consentConfirmed = False, sequenceIndex = -1,
     sequence = [], isMobile = False, currentTaskIndex = 0, completedTasks = [],
     skippedTasks = [], st_startTime = None, totalTimeSpent = 0, totalActiveTime = 0,
     st_lastActivity = None, currentTaskType = [] \<rparr>"

text \<open>
  What a payload handed to \<open>sendToSheets\<close> carries: the action, the session code and,
  for \<open>save_state\<close>, the snapshot.
\<close>

record payload =
  action :: string
  p_sessionCode :: string
  p_state :: "state option"

datatype ls_value = State_JSON state | Plain string

text \<open>
  The browser around the session: the two timers, the three stores and what was
  printed.  \<open>firestore\<close> is the \<open>sessions\<close> collection (a document is the snapshot;
  its \<open>lastUpdated\<close> field is deleted again on load), \<open>shim_received\<close> and
  \<open>sheet_received\<close> are the payloads that reached \<open>window.sendToSheets\<close> and the
  endpoint \<open>CONFIG.SHEETS_URL\<close>.
\<close>

record world =
  state :: state
  taskTimer :: timer
  sessionTimer :: timer
  firestore :: "string \<rightharpoonup> state"
  localStorage :: "string \<rightharpoonup> ls_value"
  shim_received :: "payload list"
  sheet_received :: "payload list"
  console :: "string list"
  alerts :: "string list"

text \<open>What is configured, and which calls fail, during one call of a store function.\<close>

record env =
  db_present :: bool
  db_set_throws :: bool
  db_set_rejects :: bool
  db_get_fails :: bool
  ls_setItem_throws :: bool
  shim :: "bool option"
  sheets_url :: bool
  fetch_fails :: bool
  sheet_response :: "state option"

text \<open>
  \<open>sendToSheets\<close>: the shim if there is one (\<open>Some ok\<close>); when it throws, or when there
  is none, the endpoint if \<open>CONFIG.SHEETS_URL\<close> is set.  Nothing is thrown to the caller.
\<close>

definition sendToSheets :: "payload \<Rightarrow> env \<Rightarrow> world \<Rightarrow> world" where
  "sendToSheets pl e w =
     (case shim e of
        Some True \<Rightarrow> w\<lparr> shim_received := shim_received w @ [pl] \<rparr>
      | other \<Rightarrow>
          (let w1 = (if other = Some False
                     then w\<lparr> console := console w @ [''window.sendToSheets failed:''] \<rparr>
                     else w)
           in if \<not> sheets_url e then w1
              else if fetch_fails e
                then w1\<lparr> console := console w1 @ [''Sheets fallback error:''] \<rparr>
                else w1\<lparr> sheet_received := sheet_received w1 @ [pl] \<rparr>))"

text \<open>
  The body of the \<open>try\<close> block of \<open>saveState\<close>: \<open>Inl\<close> is an exception, with the world
  as it was when it was thrown; \<open>saveState\<close> catches it.
\<close>

definition saveState_try :: "int \<Rightarrow> env \<Rightarrow> world \<Rightarrow> (string \<times> world) + world" where
  "saveState_try now e w =
     (if sessionCode (state w) = [] then
        Inr (w\<lparr> console := console w @ [''Invalid state, not saving''] \<rparr>)
      else
        (let w1 = w\<lparr> state := (state w)\<lparr> st_lastActivity := Some now \<rparr> \<rparr>;
             code = sessionCode (state w1);
             r = (if db_present e then
                    (if db_set_throws e then Inl (''firestore'', w1)
                     else if db_set_rejects e
                       then Inr (w1\<lparr> console := console w1 @ [''Firebase save error:''] \<rparr>)
                       else Inr (w1\<lparr> firestore := (firestore w1)(code \<mapsto> state w1) \<rparr>))
                  else Inr w1)
         in case r of
              Inl ex \<Rightarrow> Inl ex
            | Inr w2 \<Rightarrow>
                if ls_setItem_throws e then Inl (''localStorage'', w2)
                else
                  (let w3 = w2\<lparr> localStorage :=
                               (localStorage w2)
                                 (''study_'' @ code \<mapsto> State_JSON (state w2),
                                  ''recent_session'' \<mapsto> Plain code) \<rparr>
                   in Inr (sendToSheets
                             \<lparr> action = ''save_state'', p_sessionCode = code,
                               p_state = Some (state w3) \<rparr> e w3))))"

definition saveState :: "int \<Rightarrow> env \<Rightarrow> world \<Rightarrow> world" where
  "saveState now e w =
     (case saveState_try now e w of
        Inl (ex, w') \<Rightarrow> w'\<lparr> console := console w' @ [''Could not save state''] \<rparr>
      | Inr w' \<Rightarrow> w')"

text \<open>\<open>Date.now().toString().slice(-4)\<close>.\<close>

fun decimal :: "nat \<Rightarrow> string" where
  "decimal n = (if n < 10 then [char_of (48 + n)]
                else decimal (n div 10) @ [char_of (48 + n mod 10)])"

definition toString :: "int \<Rightarrow> string" where
  "toString n = (if n < 0 then CHR ''-'' # decimal (nat (- n)) else decimal (nat n))"

definition slice_last :: "nat \<Rightarrow> string \<Rightarrow> string" where
  "slice_last k s = drop (length s - k) s"

text \<open>The form values, the device test, the answer to the confirm dialog, the random numbers.\<close>

record create_params =
  in_first :: string
  in_last :: string
  in_email :: string
  in_hearing :: string
  in_fluency :: string
  in_consentCode :: string
  in_consent :: bool
  in_mobile :: bool
  in_proceed :: bool
  in_random :: "nat \<Rightarrow> rat"

definition createNewSession :: "create_params \<Rightarrow> int \<Rightarrow> env \<Rightarrow> world \<Rightarrow> world" where
  "createNewSession p now e w =
     (let first = toUpperCase (trim (in_first p));
          last = toUpperCase (trim (in_last p));
          consentC = trim (in_consentCode p)
      in if first = [] \<or> last = [] \<or> in_hearing p = [] \<or> in_fluency p = [] \<or>
            consentC = [] \<or> \<not> in_consent p
         then w\<lparr> alerts := alerts w @ [''Please complete all fields and confirm consent''] \<rparr>
         else if in_mobile p \<and> \<not> in_proceed p then w
         else
           (let code = generateCode (in_random p);
                seed = \<bar>hashCode code\<bar>;
                shuffled = (if in_mobile p then shuffleWithSeed MOBILE_TASKS seed
                            else shuffleWithSeed DESKTOP_TASKS seed);
                st = (state w)\<lparr>
                       sessionCode := code,
                       participantID := first @ last @ ''_'' @ slice_last 4 (toString now),
                       email := trim (in_email p),
                       hearingStatus := in_hearing p,
                       fluency := in_fluency p,
                       consentCode := consentC,
                       consentConfirmed := in_consent p,
                       sequenceIndex := seed,
                       sequence := ensureDemographicsLast shuffled,
                       isMobile := in_mobile p,
                       st_startTime := Some now,
                       st_lastActivity := Some now \<rparr>;
                w1 = saveState now e (w\<lparr> state := st \<rparr>)
            in sendToSheets
                 \<lparr> action = ''session_created'', p_sessionCode = sessionCode (state w1),
                   p_state = None \<rparr> e w1))"

text \<open>
  \<open>resumeSession\<close>.  After a load the sequence is normalised, the state saved, and the
  session timer started if it has no start time.
\<close>

definition load_state :: "state \<Rightarrow> int \<Rightarrow> env \<Rightarrow> world \<Rightarrow> world" where
  "load_state doc now e w =
     (let w1 = saveState now e
                 (w\<lparr> state := doc\<lparr> sequence := ensureDemographicsLast (sequence doc) \<rparr> \<rparr>)
      in if \<not> truthy (startTime (sessionTimer w1))
         then w1\<lparr> sessionTimer := start now (sessionTimer w1) \<rparr> else w1)"

definition resume_fallback :: "int \<Rightarrow> env \<Rightarrow> world \<Rightarrow> world" where
  "resume_fallback now e w =
     (if sheets_url e then
        (if fetch_fails e then w\<lparr> alerts := alerts w @ [''Error loading session''] \<rparr>
         else case sheet_response e of
                None \<Rightarrow> w\<lparr> alerts := alerts w @ [''Session not found. Please check your code.''] \<rparr>
              | Some doc \<Rightarrow> load_state doc now e w)
      else w\<lparr> alerts := alerts w @ [''Session not found. Please check your code.''] \<rparr>)"

definition resumeSession :: "string \<Rightarrow> string \<Rightarrow> int \<Rightarrow> env \<Rightarrow> world \<Rightarrow> world" where
  "resumeSession codeFromLink field now e w =
     (let input = (if codeFromLink \<noteq> [] then codeFromLink else field)
      in case resume_entry input of
           None \<Rightarrow> w\<lparr> alerts := alerts w @ [''Please enter your 8-character session code''] \<rparr>
         | Some code \<Rightarrow>
             if db_present e then
               (if db_get_fails e then w\<lparr> alerts := alerts w @ [''Error loading session''] \<rparr>
                else case firestore w code of
                       Some doc \<Rightarrow> load_state doc now e w
                     | None \<Rightarrow> resume_fallback now e w)
             else resume_fallback now e w)"

text \<open>
  The loop \<open>while (i < sequence.length && completedTasks.includes(sequence[i])) i++\<close>.
\<close>

function advance :: "string list \<Rightarrow> string list \<Rightarrow> nat \<Rightarrow> nat" where
  "advance seq done i =
     (if i < length seq \<and> seq ! i \<in> set done then advance seq done (Suc i) else i)"
  by pat_completeness auto
termination
  by (relation "measure (\<lambda>(seq, done, i). length seq - i)") auto

declare advance.simps [simp del]

definition logSessionTime :: "env \<Rightarrow> world \<Rightarrow> world" where
  "logSessionTime e w =
     (if sessionCode (state w) = [] then w
      else sendToSheets \<lparr> action = ''session_timer'', p_sessionCode = sessionCode (state w),
                          p_state = None \<rparr> e w)"

definition completeTask :: "string \<Rightarrow> int \<Rightarrow> env \<Rightarrow> world \<Rightarrow> world" where
  "completeTask taskCode now e w =
     (case TASKS taskCode of
        None \<Rightarrow> w\<lparr> console := console w @ [''Task not found:''] \<rparr>
      | Some skilled \<Rightarrow>
          (let tt = stop now (taskTimer w);
               summ = getSummary now tt;
               st = state w;
               st1 = st\<lparr> totalTimeSpent := totalTimeSpent st + elapsed summ \<rparr>;
               st2 = (if taskCode \<in> set (completedTasks st1) then st1
                      else st1\<lparr> completedTasks := completedTasks st1 @ [taskCode] \<rparr>);
               st3 = st2\<lparr> skippedTasks := filter (\<lambda>code. code \<noteq> taskCode) (skippedTasks st2) \<rparr>;
               st4 = st3\<lparr> currentTaskIndex :=
                           advance (sequence st3) (completedTasks st3)
                             (currentTaskIndex st3 + 1) \<rparr>;
               w1 = saveState now e (w\<lparr> taskTimer := tt, state := st4 \<rparr>);
               w2 = sendToSheets
                      \<lparr> action = (if skilled then ''skilled_task_completed''
                                   else ''task_completed''),
                        p_sessionCode = sessionCode (state w1), p_state = None \<rparr> e w1;
               w3 = logSessionTime e w2
           in w3\<lparr> state := (state w3)\<lparr> currentTaskType := [] \<rparr> \<rparr>))"

section \<open>Backend aggregator (Code.gs)\<close>

text \<open>
  The rows that \<open>computeSessionWindowMs_\<close> and \<open>updateTotalTime\<close> read, after the header
  row.  A timestamp cell is given by what \<open>parseTsMs_\<close> makes of it (\<open>None\<close> for
  \<open>null\<close>); a numeric cell by what \<open>Number(cell) || 0\<close> makes of it.
\<close>

record session_row =
  created :: "rat option"
  lastAct :: "rat option"
  pausedMinExisting :: rat

record progress_row =
  pr_timestamp :: "rat option"
  pr_sessionCode :: string
  pr_start :: "rat option"
  pr_end :: "rat option"
  pr_active :: rat
  pr_inactive :: rat

record event_row =
  ev_timestamp :: "rat option"
  ev_sessionCode :: string

record sheets =
  Sessions :: "string \<rightharpoonup> session_row"
  Task_Progress :: "progress_row list"
  Session_Events :: "event_row list"

text \<open>\<open>findRowBySessionCode_\<close>: no row for an empty code.\<close>

definition findRowBySessionCode :: "sheets \<Rightarrow> string \<Rightarrow> session_row option" where
  "findRowBySessionCode ss code = (if code = [] then None else Sessions ss code)"

text \<open>The pair \<open>(minMs, maxMs)\<close> and its update \<open>if (ms != null) { ... }\<close>.\<close>

type_synonym window = "rat option \<times> rat option"

definition widen :: "window \<Rightarrow> rat option \<Rightarrow> window" where
  "widen mm ms =
     (case ms of
        None \<Rightarrow> mm
      | Some t \<Rightarrow>
          ((case fst mm of None \<Rightarrow> Some t | Some lo \<Rightarrow> if t < lo then Some t else Some lo),
           (case snd mm of None \<Rightarrow> Some t | Some hi \<Rightarrow> if t > hi then Some t else Some hi)))"

text \<open>The pair has a lower bound at or below \<open>t\<close>; an upper bound at or above \<open>t\<close>.\<close>

definition reaches_down :: "window \<Rightarrow> rat \<Rightarrow> bool" where
  "reaches_down mm t = (case fst mm of None \<Rightarrow> False | Some lo \<Rightarrow> lo \<le> t)"

definition reaches_up :: "window \<Rightarrow> rat \<Rightarrow> bool" where
  "reaches_up mm t = (case snd mm of None \<Rightarrow> False | Some hi \<Rightarrow> t \<le> hi)"

record session_window =
  startMs :: rat
  endMs :: rat

definition computeSessionWindowMs :: "sheets \<Rightarrow> string \<Rightarrow> rat \<Rightarrow> session_window" where
  "computeSessionWindowMs ss code now =
     (let mm0 = (case findRowBySessionCode ss code of
                   None \<Rightarrow> (None, None)
                 | Some row \<Rightarrow> (created row, lastAct row));
          mm1 = foldl (\<lambda>mm r. if pr_sessionCode r \<noteq> code then mm
                               else widen (widen (widen mm (pr_timestamp r)) (pr_start r)) (pr_end r))
                  mm0 (Task_Progress ss);
          mm2 = foldl (\<lambda>mm r. if ev_sessionCode r \<noteq> code then mm
                               else widen mm (ev_timestamp r))
                  mm1 (Session_Events ss);
          minMs = (case fst mm2 of None \<Rightarrow> now | Some t \<Rightarrow> t);
          maxMs = (case snd mm2 of None \<Rightarrow> minMs | Some t \<Rightarrow> t);
          maxMs' = (if maxMs < minMs then minMs else maxMs)
      in \<lparr> startMs = minMs, endMs = maxMs' \<rparr>)"

definition Math_round_rat :: "rat \<Rightarrow> rat" where
  "Math_round_rat x = rat_of_int \<lfloor>x + 1 / 2\<rfloor>"

text \<open>Steps 1 to 3 of \<open>updateTotalTime\<close>: the seconds.\<close>

record totals_sec =
  totalSecByWindow :: rat
  activeSec :: rat
  inactiveSec :: rat
  pausedSec :: rat
  idleSec :: rat

definition updateTotalTime_sec :: "sheets \<Rightarrow> string \<Rightarrow> rat \<Rightarrow> session_row \<Rightarrow> totals_sec" where
  "updateTotalTime_sec ss code now row =
     (let win = computeSessionWindowMs ss code now;
          total = max 0 (Math_round_rat ((endMs win - startMs win) / 1000));
          act = foldl (\<lambda>acc r. if pr_sessionCode r \<noteq> code then acc
                                else if pr_active r > 0 then acc + pr_active r else acc)
                  0 (Task_Progress ss);
          inact = foldl (\<lambda>acc r. if pr_sessionCode r \<noteq> code then acc
                                  else if pr_inactive r > 0 then acc + pr_inactive r else acc)
                    0 (Task_Progress ss);
          pausedS = pausedMinExisting row * 60;
          idle = max 0 (total - act - pausedS - inact)
      in \<lparr> totalSecByWindow = total, activeSec = act, inactiveSec = inact,
           pausedSec = pausedS, idleSec = idle \<rparr>)"

text \<open>Step 4: the minutes written to the session's row; nothing without a row.\<close>

record totals_min =
  totalMin :: rat
  activeMin :: rat
  idleMin :: rat
  pausedMin :: rat

definition updateTotalTime :: "sheets \<Rightarrow> string \<Rightarrow> rat \<Rightarrow> totals_min option" where
  "updateTotalTime ss code now =
     (case findRowBySessionCode ss code of
        None \<Rightarrow> None
      | Some row \<Rightarrow>
          (let t = updateTotalTime_sec ss code now row
           in Some \<lparr> totalMin = Math_round_rat (totalSecByWindow t / 60),
                     activeMin = Math_round_rat (activeSec t / 60),
                     idleMin = Math_round_rat (idleSec t / 60),
                     pausedMin = Math_round_rat (pausedSec t / 60) \<rparr>))"


section \<open>Concrete runs\<close>

text \<open>
  A timer on a wall clock that is set back by one second between the tick at 11001
  and the manual pause; and a timer on a clock that never goes back, stopped twice
  while it is manually paused (every \<open>completeTask\<close> and \<open>skipTask\<close> calls \<open>stop\<close>).
\<close>

definition clock_step_back_ops :: "timer_op list" where
  "clock_step_back_ops =
     [Start 10000, Tick None False 11001, Pause ''manual'' 10000, Resume 11001]"

definition double_stop_ops :: "timer_op list" where
  "double_stop_ops =
     [Start 1000, Tick None False 1002, Pause ''manual'' 1002, Stop 1005, Stop 1006]"

text \<open>A timer started at 0, and a timer started at 1000 and stopped at 61000.\<close>

definition running_example :: timer where
  "running_example = start 0 createTimer"

definition stopped_example :: timer where
  "stopped_example = stop 61000 (start 1000 createTimer)"



text \<open>
  A session at its first task with the task timer started at 1000, a browser in which
  everything works, and the first and second call of \<open>completeTask('RC')\<close>.
\<close>

definition example_world :: world where
  "example_world =
     \<lparr> state = initial_state\<lparr> sessionCode := ''ABCD2345'',
                                sequence := [''RC'', ''MRT'', ''DEMO''] \<rparr>,
       taskTimer = start 1000 createTimer, sessionTimer = start 500 createTimer,
       firestore = Map.empty, localStorage = Map.empty, shim_received = [],
       sheet_received = [], console = [], alerts = [] \<rparr>"

definition healthy_env :: env where
  "healthy_env =
     \<lparr> db_present = True, db_set_throws = False, db_set_rejects = False,
       db_get_fails = False, ls_setItem_throws = False, shim = None, sheets_url = True,
       fetch_fails = False, sheet_response = None \<rparr>"

definition completed_once :: world where
  "completed_once = completeTask ''RC'' 61000 healthy_env example_world"

definition completed_twice :: world where
  "completed_twice = completeTask ''RC'' 61500 healthy_env completed_once"

text \<open>The same browser with a \<open>localStorage\<close> whose \<open>setItem\<close> throws (quota, private mode).\<close>

definition quota_env :: env where
  "quota_env = healthy_env\<lparr> ls_setItem_throws := True \<rparr>"

text \<open>Form values that pass the checks of \<open>createNewSession\<close>, with random numbers in range.\<close>

definition valid_params :: "create_params \<Rightarrow> bool" where
  "valid_params p =
     (toUpperCase (trim (in_first p)) \<noteq> [] \<and> toUpperCase (trim (in_last p)) \<noteq> [] \<and>
      in_hearing p \<noteq> [] \<and> in_fluency p \<noteq> [] \<and> trim (in_consentCode p) \<noteq> [] \<and>
      in_consent p \<and> (in_mobile p \<longrightarrow> in_proceed p) \<and>
      (\<forall>i<8. 0 \<le> in_random p i \<and> in_random p i < 1))"

definition example_params :: create_params where
  "example_params =
     \<lparr> in_first = ''m'', in_last = ''s'', in_email = '' m@example.org'',
       in_hearing = ''Deaf'', in_fluency = ''Native'', in_consentCode = ''C1'',
       in_consent = True, in_mobile = False, in_proceed = False,
       in_random = (\<lambda>i. 1 / 2) \<rparr>"

text \<open>
  A session of 100 seconds with one task row of 10 active and 20 inactive seconds.
\<close>

definition example_row :: session_row where
  "example_row = \<lparr> created = Some 1700000000000, lastAct = Some 1700000100000,
                   pausedMinExisting = 0 \<rparr>"

definition example_sheets :: sheets where
  "example_sheets =
     \<lparr> Sessions = [''ABCD2345'' \<mapsto> example_row],
       Task_Progress = [\<lparr> pr_timestamp = Some 1700000050000, pr_sessionCode = ''ABCD2345'',
                          pr_start = Some 1700000020000, pr_end = Some 1700000050000,
                          pr_active = 10, pr_inactive = 20 \<rparr>],
       Session_Events = [\<lparr> ev_timestamp = Some 1700000060000,
                           ev_sessionCode = ''ABCD2345'' \<rparr>] \<rparr>"

text \<open>
  A freshly loaded page; a browser with neither the document store nor the sheet
  endpoint; the session created there; the page after a reload, which keeps the local
  storage and nothing of the in-memory state; and the resume with the session's code.
\<close>

definition fresh_world :: world where
  "fresh_world =
     \<lparr> state = initial_state, taskTimer = createTimer, sessionTimer = createTimer,
       firestore = Map.empty, localStorage = Map.empty, shim_received = [],
       sheet_received = [], console = [], alerts = [] \<rparr>"

definition no_store_env :: env where
  "no_store_env = healthy_env\<lparr> db_present := False, sheets_url := False \<rparr>"

definition created_offline :: world where
  "created_offline = createNewSession example_params 1000 no_store_env fresh_world"

definition reloaded_offline :: world where
  "reloaded_offline =
     created_offline\<lparr> state := initial_state, taskTimer := createTimer,
                       sessionTimer := createTimer, console := [], alerts := [] \<rparr>"

definition resumed_offline :: world where
  "resumed_offline = resumeSession [] ''SSSSSSSS'' 2000 no_store_env reloaded_offline"

text \<open>Other form values with the same random numbers and the same device.\<close>

definition other_params :: create_params where
  "other_params =
     example_params\<lparr> in_first := ''q'', in_email := [], in_hearing := ''Hearing'' \<rparr>"

section \<open>Properties of the sequencer\<close>

lemma unit_fraction_range:
  "0 \<le> rat_of_nat (unat (w :: 32 word)) / 4294967296 \<and>
   rat_of_nat (unat w) / 4294967296 < 1"
proof -
  have "unat w < 4294967296"
    using unsigned_less [of w, where ?'a = nat] by simp
  then have "rat_of_nat (unat w) < rat_of_nat 4294967296"
    by (simp only: of_nat_less_iff)
  moreover have "0 \<le> rat_of_nat (unat w)"
    by (rule of_nat_0_le_iff)
  ultimately show ?thesis by simp
qed

lemma mulberry32_call_range:
  "0 \<le> fst (mulberry32_call a) \<and> fst (mulberry32_call a) < 1"
  by (simp only: mulberry32_call_def Let_def fst_conv) (rule unit_fraction_range)

lemma shuffle_index_le:
  assumes "0 \<le> r" "r < 1"
  shows "nat \<lfloor>r * rat_of_nat (Suc n)\<rfloor> \<le> n"
proof -
  have "r * rat_of_nat (Suc n) < rat_of_nat (Suc n)"
    using assms by simp
  then have "\<lfloor>r * rat_of_nat (Suc n)\<rfloor> < int (Suc n)"
    by (simp add: floor_less_iff)
  then show ?thesis by simp
qed

lemma shuffle_loop_mset:
  "k < length xs \<Longrightarrow> mset (shuffle_loop k a xs) = mset xs"
proof (induction k arbitrary: a xs)
  case 0
  then show ?case by simp
next
  case (Suc k)
  obtain r a' where ra: "mulberry32_call a = (r, a')" by (cases "mulberry32_call a")
  have r: "0 \<le> r" "r < 1" using mulberry32_call_range [of a] ra by simp_all
  let ?j = "nat \<lfloor>r * rat_of_nat (Suc (Suc k))\<rfloor>"
  have j: "?j \<le> Suc k" using shuffle_index_le [OF r] .
  let ?ys = "xs[Suc k := xs ! ?j, ?j := xs ! Suc k]"
  have "mset ?ys = mset xs"
    using Suc.prems j by (intro mset_swap) simp_all
  moreover have "mset (shuffle_loop k a' ?ys) = mset ?ys"
    using Suc.prems by (intro Suc.IH) simp
  ultimately show ?case using ra by (simp add: Let_def)
qed

lemma shuffleWithSeed_mset: "mset (shuffleWithSeed array seed) = mset array"
proof (cases array)
  case Nil
  then show ?thesis by (simp add: shuffleWithSeed_def)
next
  case (Cons x xs)
  then show ?thesis by (simp add: shuffleWithSeed_def shuffle_loop_mset)
qed

lemma shuffleWithSeed_distinct: "distinct (shuffleWithSeed array seed) = distinct array"
  using shuffleWithSeed_mset [of array seed] by (metis mset_eq_imp_distinct_iff)

lemma ensureDemographicsLast_last: "last (ensureDemographicsLast s) = ''DEMO''"
  by (simp add: ensureDemographicsLast_def)

lemma ensureDemographicsLast_butlast:
  "butlast (ensureDemographicsLast s) = filter (\<lambda>code. code \<noteq> ''DEMO'') s"
  by (simp add: ensureDemographicsLast_def)

lemma count_list_filter_neq: "count_list (filter (\<lambda>c. c \<noteq> x) s) x = 0"
  by (induction s) auto

lemma ensureDemographicsLast_count: "count_list (ensureDemographicsLast s) ''DEMO'' = 1"
  by (simp add: ensureDemographicsLast_def count_list_filter_neq)

lemma ensureDemographicsLast_distinct:
  "distinct s \<Longrightarrow> distinct (ensureDemographicsLast s)"
  by (simp add: ensureDemographicsLast_def)

lemma ensureDemographicsLast_idem:
  "ensureDemographicsLast (ensureDemographicsLast s) = ensureDemographicsLast s"
  by (simp add: ensureDemographicsLast_def)

lemma filter_no_DEMO: "''DEMO'' \<notin> set s \<Longrightarrow> filter (\<lambda>code. code \<noteq> ''DEMO'') s = s"
  by (induction s) auto

text \<open>
  Claim C3.  Whatever the task list and the seed, the generated sequence ends with
  \<open>DEMO\<close>, contains it exactly once, and its other elements are a permutation of the
  input list without \<open>DEMO\<close>; a list without duplicates gives a sequence without
  duplicates.  For the two device lists the other elements are a permutation of the
  device's list, and the sequence has no duplicates.
\<close>

theorem sequence_terminal_last_permutation:
  "last (ensureDemographicsLast (shuffleWithSeed tasks seed)) = ''DEMO'' \<and>
   count_list (ensureDemographicsLast (shuffleWithSeed tasks seed)) ''DEMO'' = 1 \<and>
   mset (butlast (ensureDemographicsLast (shuffleWithSeed tasks seed)))
     = mset (filter (\<lambda>code. code \<noteq> ''DEMO'') tasks) \<and>
   (distinct tasks \<longrightarrow> distinct (ensureDemographicsLast (shuffleWithSeed tasks seed))) \<and>
   mset (butlast (sessionSequence False code)) = mset DESKTOP_TASKS \<and>
   mset (butlast (sessionSequence True code)) = mset MOBILE_TASKS \<and>
   distinct (sessionSequence mobile code)"
proof -
  have perm: "mset (butlast (ensureDemographicsLast (shuffleWithSeed ts sd)))
     = mset (filter (\<lambda>code. code \<noteq> ''DEMO'') ts)" for ts sd
    by (simp add: ensureDemographicsLast_butlast shuffleWithSeed_mset mset_filter)
  have dist: "distinct ts \<Longrightarrow> distinct (ensureDemographicsLast (shuffleWithSeed ts sd))" for ts sd
    by (simp add: ensureDemographicsLast_distinct shuffleWithSeed_distinct)
  have d: "mset (butlast (sessionSequence False code)) = mset DESKTOP_TASKS"
    unfolding sessionSequence_def using perm [of DESKTOP_TASKS]
    by (simp add: DESKTOP_TASKS_def)
  have m: "mset (butlast (sessionSequence True code)) = mset MOBILE_TASKS"
    unfolding sessionSequence_def using perm [of MOBILE_TASKS]
    by (simp add: MOBILE_TASKS_def)
  have dd: "distinct (sessionSequence mobile code)"
    unfolding sessionSequence_def
    by (intro dist) (simp add: DESKTOP_TASKS_def MOBILE_TASKS_def)
  show ?thesis
    using perm dist d m dd
    by (simp add: ensureDemographicsLast_last ensureDemographicsLast_count)
qed

theorem sequence_terminal_last_permutation_witness:
  "distinct DESKTOP_TASKS \<and> distinct (ensureDemographicsLast (shuffleWithSeed DESKTOP_TASKS 42)) \<and>
   last (ensureDemographicsLast (shuffleWithSeed DESKTOP_TASKS 42)) = ''DEMO''"
proof -
  have d: "distinct DESKTOP_TASKS" by (simp add: DESKTOP_TASKS_def)
  show ?thesis
    using d sequence_terminal_last_permutation [of DESKTOP_TASKS 42] by simp
qed

lemma sessionSeed_range: "0 \<le> sessionSeed c \<and> sessionSeed c \<le> 2147483648"
proof -
  have a: "- 2147483648 \<le> sint (w :: 32 word)" for w
    using sint_ge [of w] by simp
  have b: "sint (w :: 32 word) < 2147483648" for w
    using sint_lt [of w] by simp
  show ?thesis
    unfolding sessionSeed_def hashCode_def
    using a [of "foldl (\<lambda>hash c. push_bit 5 hash - hash + word_of_nat (of_char c)) 0 c"]
      b [of "foldl (\<lambda>hash c. push_bit 5 hash - hash + word_of_nat (of_char c)) 0 c"]
    by linarith
qed

lemma hash_step:
  "push_bit 5 h - h + word_of_nat n = (word_of_int (31 * sint h + int n) :: 32 word)"
proof -
  have "push_bit 5 h = 32 * h"
    by (simp add: push_bit_eq_mult)
  then have "push_bit 5 h - h = 31 * h" by simp
  moreover have "(word_of_int (31 * sint h + int n) :: 32 word) = 31 * h + word_of_nat n"
    by simp
  ultimately show ?thesis by (simp only:)
qed

lemma hashCode_snoc:
  "hashCode (s @ [ch]) = sint (word_of_int (31 * hashCode s + int (of_char ch)) :: 32 word)"
proof -
  let ?H = "foldl (\<lambda>hash c. push_bit 5 hash - hash + word_of_nat (of_char c)) (0 :: 32 word) s"
  have "hashCode (s @ [ch]) = sint (push_bit 5 ?H - ?H + word_of_nat (of_char ch))"
    by (simp only: hashCode_def foldl_append foldl.simps)
  also have "\<dots> = sint (word_of_int (31 * sint ?H + int (of_char ch)) :: 32 word)"
    by (simp only: hash_step)
  finally show ?thesis by (simp only: hashCode_def)
qed

section \<open>Properties of session codes\<close>

lemma code_chars_ok: "list_all is_code_char code_chars"
  by (simp add: code_chars_def is_code_char_def)

lemma charAt_code_chars:
  assumes "0 \<le> r" "r < 1"
  shows "\<exists>c. charAt code_chars \<lfloor>r * rat_of_nat (length code_chars)\<rfloor> = [c] \<and>
           is_code_char c \<and> c \<in> set code_chars"
proof -
  let ?k = "\<lfloor>r * rat_of_nat (length code_chars)\<rfloor>"
  have "0 \<le> r * rat_of_nat (length code_chars)" using assms by simp
  then have k0: "0 \<le> ?k" by simp
  have "r * rat_of_nat (length code_chars) < rat_of_nat (length code_chars)"
    using assms by (simp add: code_chars_def)
  then have k1: "?k < int (length code_chars)" by (simp add: floor_less_iff)
  have lt: "nat ?k < length code_chars" using k0 k1 by linarith
  have c: "is_code_char (code_chars ! nat ?k)"
    using code_chars_ok lt by (simp add: list_all_length)
  have m: "code_chars ! nat ?k \<in> set code_chars"
    using lt by (rule nth_mem)
  have "charAt code_chars ?k = [code_chars ! nat ?k]"
    using k0 k1 by (simp add: charAt_def)
  with c m show ?thesis by blast
qed

lemma trim_code: "list_all is_code_char s \<Longrightarrow> trim s = s"
proof -
  have nospace: "is_code_char c \<Longrightarrow> \<not> is_space c" for c
    by (auto simp: is_code_char_def is_space_def)
  assume a: "list_all is_code_char s"
  then have "dropWhile is_space s = s"
    using nospace by (cases s) auto
  moreover have "dropWhile is_space (rev s) = rev s"
    using a nospace by (cases "rev s") (auto simp: list_all_iff dest: arg_cong [where f = set])
  ultimately show ?thesis by (simp add: trim_def)
qed

lemma toUpperCase_code: "list_all is_code_char s \<Longrightarrow> toUpperCase s = s"
  by (induction s) (auto simp: toUpperCase_def is_code_char_def)

lemma generateCode_shape:
  assumes "\<forall>i<8. 0 \<le> rnd i \<and> rnd i < 1"
  shows "length (generateCode rnd) = 8 \<and> list_all is_code_char (generateCode rnd) \<and>
         set (generateCode rnd) \<subseteq> set code_chars"
proof -
  have ex: "\<exists>c. charAt code_chars \<lfloor>rnd i * rat_of_nat (length code_chars)\<rfloor> = [c] \<and>
           is_code_char c \<and> c \<in> set code_chars" if "i < 8" for i
    using assms that by (intro charAt_code_chars) auto
  obtain c0 c1 c2 c3 c4 c5 c6 c7 where
    "charAt code_chars \<lfloor>rnd 0 * rat_of_nat (length code_chars)\<rfloor> = [c0]"
      "is_code_char c0" "c0 \<in> set code_chars"
    "charAt code_chars \<lfloor>rnd 1 * rat_of_nat (length code_chars)\<rfloor> = [c1]"
      "is_code_char c1" "c1 \<in> set code_chars"
    "charAt code_chars \<lfloor>rnd 2 * rat_of_nat (length code_chars)\<rfloor> = [c2]"
      "is_code_char c2" "c2 \<in> set code_chars"
    "charAt code_chars \<lfloor>rnd 3 * rat_of_nat (length code_chars)\<rfloor> = [c3]"
      "is_code_char c3" "c3 \<in> set code_chars"
    "charAt code_chars \<lfloor>rnd 4 * rat_of_nat (length code_chars)\<rfloor> = [c4]"
      "is_code_char c4" "c4 \<in> set code_chars"
    "charAt code_chars \<lfloor>rnd 5 * rat_of_nat (length code_chars)\<rfloor> = [c5]"
      "is_code_char c5" "c5 \<in> set code_chars"
    "charAt code_chars \<lfloor>rnd 6 * rat_of_nat (length code_chars)\<rfloor> = [c6]"
      "is_code_char c6" "c6 \<in> set code_chars"
    "charAt code_chars \<lfloor>rnd 7 * rat_of_nat (length code_chars)\<rfloor> = [c7]"
      "is_code_char c7" "c7 \<in> set code_chars"
    using ex [of 0] ex [of 1] ex [of 2] ex [of 3] ex [of 4] ex [of 5] ex [of 6] ex [of 7]
    by auto
  then show ?thesis
    by (simp add: generateCode_def)
qed

lemma resume_entry_code:
  assumes "length s = 8" "list_all is_code_char s"
  shows "resume_entry s = Some s"
  using assms by (simp add: resume_entry_def trim_code toUpperCase_code CODE_REGEX_test_def)

text \<open>
  Claim C10.  When every \<open>Math.random()\<close> value lies in \<open>[0, 1)\<close>, the generated code has
  eight characters, all of them from \<open>A\<close>-\<open>Z\<close> and \<open>0\<close>-\<open>9\<close>, it matches \<open>CODE_REGEX\<close>,
  and the entry check of \<open>resumeSession\<close> (trim, upper case, test) accepts it unchanged.
\<close>

theorem generateCode_accepted_by_resume:
  assumes "\<forall>i<8. 0 \<le> rnd i \<and> rnd i < 1"
  shows "length (generateCode rnd) = 8 \<and> set (generateCode rnd) \<subseteq> set code_chars \<and>
         CODE_REGEX_test (generateCode rnd) \<and>
         resume_entry (generateCode rnd) = Some (generateCode rnd)"
  using generateCode_shape [OF assms] resume_entry_code [of "generateCode rnd"]
  by (simp add: CODE_REGEX_test_def)

theorem generateCode_accepted_by_resume_witness:
  "(0::rat) \<le> 1 / 2 \<and> (1::rat) / 2 < 1 \<and>
   generateCode (\<lambda>i. 1 / 2) = ''SSSSSSSS'' \<and>
   resume_entry (generateCode (\<lambda>i. 1 / 2)) = Some (generateCode (\<lambda>i. 1 / 2))"
proof -
  have h: "\<forall>i<(8::nat). (0::rat) \<le> (\<lambda>i. 1 / 2) i \<and> (\<lambda>i. 1 / 2) i < (1::rat)" by simp
  have "generateCode (\<lambda>i. 1 / 2) = ''SSSSSSSS''"
    by (simp add: generateCode_def code_chars_def charAt_def)
  then show ?thesis
    using generateCode_accepted_by_resume [OF h] by simp
qed

section \<open>Properties of the timer\<close>

lemmas timer_defs = createTimer_def start_def pause_def resume_def recordActivity_def
  showInactivityPrompt_def tick_def stop_def truthy_def num_def

lemma floor_half: "\<lfloor>(1::rat) / 2\<rfloor> = 0"
  by (simp add: floor_eq_iff)

text \<open>
  Claim C1.  The returned buckets can exceed \<open>elapsed\<close>: the scaled values are rounded
  to the nearest integer one by one.  With a clock that is set back by one second, the
  calls start, tick, pause, resume give \<open>active + paused + inactive = 1002\<close> against
  \<open>elapsed = 1001\<close>; with a clock that never goes back, a second \<open>stop\<close> during a manual
  pause gives \<open>7\<close> against \<open>6\<close>.
\<close>

theorem getSummary_rounding_overshoot:
  "elapsed (getSummary 11001 (run_ops createTimer clock_step_back_ops)) = 1001 \<and>
   active (getSummary 11001 (run_ops createTimer clock_step_back_ops))
     + paused (getSummary 11001 (run_ops createTimer clock_step_back_ops))
     + inactive (getSummary 11001 (run_ops createTimer clock_step_back_ops)) = 1002 \<and>
   elapsed (getSummary 2000 (run_ops createTimer double_stop_ops)) = 6 \<and>
   active (getSummary 2000 (run_ops createTimer double_stop_ops))
     + paused (getSummary 2000 (run_ops createTimer double_stop_ops))
     + inactive (getSummary 2000 (run_ops createTimer double_stop_ops)) = 7"
proof -
  have a: "getSummary 11001 (run_ops createTimer clock_step_back_ops) =
      \<lparr> s_start = 10000, s_end = 11001, elapsed = 1001, active = 501, s_pauseCount = 1,
        paused = 501, inactive = 0, activity = 100 \<rparr>"
    by (simp add: clock_step_back_ops_def run_ops_def timer_defs getSummary_def Let_def
        Math_round_def floor_half)
  have b: "getSummary 2000 (run_ops createTimer double_stop_ops) =
      \<lparr> s_start = 1000, s_end = 1006, elapsed = 6, active = 2, s_pauseCount = 1,
        paused = 5, inactive = 0, activity = 100 / 3 \<rparr>"
    by (simp add: double_stop_ops_def run_ops_def timer_defs getSummary_def Let_def
        Math_round_def floor_half)
  show ?thesis by (simp add: a b)
qed

text \<open>What the scaling does guarantee: the sum is at most one above \<open>elapsed\<close>.\<close>

lemma getSummary_overshoot_bound:
  "active (getSummary now tm) + paused (getSummary now tm) + inactive (getSummary now tm)
     \<le> elapsed (getSummary now tm) + 1"
proof -
  define e where "e = (if truthy (endTime tm) then num (endTime tm) else now) - num (startTime tm)"
  define a where "a = min (activeTime tm) e"
  define p where "p = min (pausedTime tm) e"
  define i where "i = min (inactivityTime tm) e"
  show ?thesis
  proof (cases "a + p + i > e")
    case False
    then show ?thesis
      by (simp add: getSummary_def Let_def e_def a_def p_def i_def)
  next
    case True
    have e0: "0 \<le> e"
    proof (rule ccontr)
      assume "\<not> 0 \<le> e"
      then have "a + p + i \<le> e" unfolding a_def p_def i_def by linarith
      with True show False by simp
    qed
    then have t0: "0 < a + p + i" using True by simp
    define sc where "sc = rat_of_int e / rat_of_int (a + p + i)"
    have sum: "rat_of_int a * sc + rat_of_int p * sc + rat_of_int i * sc = rat_of_int e"
    proof -
      have "rat_of_int a * sc + rat_of_int p * sc + rat_of_int i * sc
            = rat_of_int (a + p + i) * sc"
        by (simp add: algebra_simps)
      also have "\<dots> = rat_of_int e" using t0 by (simp add: sc_def)
      finally show ?thesis .
    qed
    have fl: "rat_of_int (Math_round x) \<le> x + 1 / 2" for x
      unfolding Math_round_def by (rule of_int_floor_le)
    have "rat_of_int (Math_round (rat_of_int a * sc) + Math_round (rat_of_int p * sc)
             + Math_round (rat_of_int i * sc))
          \<le> rat_of_int e + 3 / 2"
      using fl [of "rat_of_int a * sc"] fl [of "rat_of_int p * sc"] fl [of "rat_of_int i * sc"] sum
      by simp
    also have "\<dots> < rat_of_int (e + 2)" by simp
    finally have "Math_round (rat_of_int a * sc) + Math_round (rat_of_int p * sc)
             + Math_round (rat_of_int i * sc) < e + 2"
      by (simp only: of_int_less_iff)
    then show ?thesis
      using True
      by (simp add: getSummary_def Let_def e_def a_def p_def i_def sc_def)
  qed
qed






lemma apply_op_endpoints:
  "\<not> is_stop_or_start op \<Longrightarrow>
     startTime (apply_op tm op) = startTime tm \<and> endTime (apply_op tm op) = endTime tm"
proof (cases op)
  case (Tick cb hidden now)
  then show ?thesis
    by (cases cb) (simp_all add: timer_defs Let_def)
qed (simp_all add: timer_defs Let_def)

lemma run_ops_endpoints:
  "\<forall>op\<in>set ops. \<not> is_stop_or_start op \<Longrightarrow>
     startTime (run_ops tm ops) = startTime tm \<and> endTime (run_ops tm ops) = endTime tm"
  unfolding run_ops_def
proof (induction ops arbitrary: tm)
  case Nil
  then show ?case by simp
next
  case (Cons op ops)
  then show ?case using apply_op_endpoints [of op tm] by simp
qed

text \<open>
  Claim C9, as stated, fails.  A stopped timer is changed by a later \<open>pause\<close> (the blur
  handler calls it on both timers, stopped or not), and \<open>getSummary\<close> then returns a
  different pause count; a later \<open>recordActivity\<close> changes \<open>lastActivity\<close>.
\<close>

theorem stopped_timer_counterexample:
  "endTime stopped_example = Some 61000 \<and>
   pause ''blur'' 62000 stopped_example \<noteq> stopped_example \<and>
   s_pauseCount (getSummary 63000 stopped_example) = 0 \<and>
   s_pauseCount (getSummary 63000 (pause ''blur'' 62000 stopped_example)) = 1 \<and>
   lastActivity stopped_example = 1000 \<and>
   lastActivity (recordActivity 62000 stopped_example) = 62000"
proof -
  have "pauseCount (pause ''blur'' 62000 stopped_example) \<noteq> pauseCount stopped_example"
    by (simp add: stopped_example_def timer_defs Let_def)
  then have "pause ''blur'' 62000 stopped_example \<noteq> stopped_example"
    by auto
  then show ?thesis
    by (simp add: stopped_example_def timer_defs Let_def getSummary_def)
qed

text \<open>
  Claim C9, amended.  After \<open>stop()\<close> at a nonzero clock reading, no sequence of
  \<open>tick\<close>, \<open>pause\<close>, \<open>resume\<close> and \<open>recordActivity\<close> calls changes \<open>startTime\<close> or \<open>endTime\<close>,
  and \<open>getSummary()\<close> returns the same start, end and elapsed time whenever it is read.
  The other fields are not protected: no operation tests for the stopped state.
\<close>

theorem stop_freezes_endpoints:
  assumes "t \<noteq> 0" and "\<forall>op\<in>set ops. \<not> is_stop_or_start op"
  shows "startTime (run_ops (stop t tm) ops) = startTime tm \<and>
         endTime (run_ops (stop t tm) ops) = Some t \<and>
         s_start (getSummary r (run_ops (stop t tm) ops)) = num (startTime tm) \<and>
         s_end (getSummary r (run_ops (stop t tm) ops)) = t \<and>
         elapsed (getSummary r (run_ops (stop t tm) ops)) = t - num (startTime tm)"
proof -
  have s: "startTime (stop t tm) = startTime tm" "endTime (stop t tm) = Some t"
    by (simp_all add: stop_def Let_def)
  have e: "startTime (run_ops (stop t tm) ops) = startTime tm"
    "endTime (run_ops (stop t tm) ops) = Some t"
    using run_ops_endpoints [OF assms(2), of "stop t tm"] s by simp_all
  show ?thesis
    using assms(1) by (simp add: e getSummary_def Let_def truthy_def num_def)
qed

theorem stop_freezes_endpoints_witness:
  "(61000::int) \<noteq> 0 \<and>
   elapsed (getSummary 70000
      (run_ops (stop 61000 running_example)
         [Pause ''blur'' 62000, RecordActivity 62500, Tick None False 63000, Resume 64000]))
     = 61000"
proof -
  have h1: "(61000::int) \<noteq> 0" by simp
  have h2: "\<forall>op\<in>set [Pause ''blur'' 62000, RecordActivity 62500, Tick None False 63000,
      Resume 64000]. \<not> is_stop_or_start op" by simp
  have n: "num (startTime running_example) = 0"
    by (simp add: running_example_def timer_defs)
  show ?thesis
    using stop_freezes_endpoints [OF h1 h2, of running_example 70000] by (simp add: n)
qed

section \<open>Properties of the session store\<close>

lemma sendToSheets_frame:
  "state (sendToSheets pl e w) = state w"
  "taskTimer (sendToSheets pl e w) = taskTimer w"
  "sessionTimer (sendToSheets pl e w) = sessionTimer w"
  "firestore (sendToSheets pl e w) = firestore w"
  "localStorage (sendToSheets pl e w) = localStorage w"
  "alerts (sendToSheets pl e w) = alerts w"
  by (simp_all add: sendToSheets_def Let_def split: option.splits bool.splits)

lemma saveState_state:
  "state (saveState now e w) =
     (if sessionCode (state w) = [] then state w
      else (state w)\<lparr> st_lastActivity := Some now \<rparr>)"
  by (simp add: saveState_def saveState_try_def Let_def sendToSheets_frame)

lemma saveState_frame:
  "taskTimer (saveState now e w) = taskTimer w"
  "sessionTimer (saveState now e w) = sessionTimer w"
  "alerts (saveState now e w) = alerts w"
  by (simp_all add: saveState_def saveState_try_def Let_def sendToSheets_frame)

lemma saveState_firestore:
  assumes "sessionCode (state w) \<noteq> []" "db_present e" "\<not> db_set_throws e" "\<not> db_set_rejects e"
  shows "firestore (saveState now e w) (sessionCode (state w))
           = Some ((state w)\<lparr> st_lastActivity := Some now \<rparr>)"
  using assms by (simp add: saveState_def saveState_try_def Let_def sendToSheets_frame)

lemma logSessionTime_frame:
  "state (logSessionTime e w) = state w"
  "taskTimer (logSessionTime e w) = taskTimer w"
  by (simp_all add: logSessionTime_def sendToSheets_frame)

lemma advance_ge: "i \<le> advance seq done i"
proof (induction seq "done" i rule: advance.induct)
  case (1 seq "done" i)
  show ?case
  proof (cases "i < length seq \<and> seq ! i \<in> set done")
    case True
    then have "advance seq done i = advance seq done (Suc i)"
      by (subst advance.simps) simp
    moreover have "Suc i \<le> advance seq done (Suc i)" using True "1.IH" by simp
    ultimately show ?thesis by simp
  next
    case False
    then have "advance seq done i = i" by (subst advance.simps) auto
    then show ?thesis by simp
  qed
qed

lemma stop_elapsed:
  "elapsed (getSummary now (stop now tm)) = now - num (startTime tm)"
  by (simp add: getSummary_def stop_def Let_def truthy_def num_def)

lemma completeTask_fields:
  assumes "TASKS x = Some sk"
  shows "completedTasks (state (completeTask x now e w)) =
           (if x \<in> set (completedTasks (state w)) then completedTasks (state w)
            else completedTasks (state w) @ [x])"
    and "skippedTasks (state (completeTask x now e w)) =
           filter (\<lambda>code. code \<noteq> x) (skippedTasks (state w))"
    and "totalTimeSpent (state (completeTask x now e w)) =
           totalTimeSpent (state w) + (now - num (startTime (taskTimer w)))"
    and "currentTaskIndex (state (completeTask x now e w)) =
           advance (sequence (state w))
             (if x \<in> set (completedTasks (state w)) then completedTasks (state w)
              else completedTasks (state w) @ [x])
             (currentTaskIndex (state w) + 1)"
    and "sequence (state (completeTask x now e w)) = sequence (state w)"
    and "taskTimer (completeTask x now e w) = stop now (taskTimer w)"
  using assms
  by (simp_all add: completeTask_def Let_def saveState_state saveState_frame
      sendToSheets_frame logSessionTime_frame stop_elapsed)

lemma startTime_stop: "startTime (stop now tm) = startTime tm"
  by (simp add: stop_def Let_def)

text \<open>
  Claim C5, as stated, fails.  The second \<open>completeTask('RC')\<close> adds the task timer's
  elapsed time to \<open>totalTimeSpent\<close> again (60000 becomes 120500) and moves
  \<open>currentTaskIndex\<close> from 1 to 2, past \<open>MRT\<close>, which was never completed.
\<close>

theorem completeTask_twice_counterexample:
  "totalTimeSpent (state completed_once) = 60000 \<and>
   totalTimeSpent (state completed_twice) = 120500 \<and>
   currentTaskIndex (state completed_once) = 1 \<and>
   currentTaskIndex (state completed_twice) = 2 \<and>
   sequence (state completed_twice) = [''RC'', ''MRT'', ''DEMO''] \<and>
   completedTasks (state completed_twice) = [''RC'']"
proof -
  have t: "TASKS ''RC'' = Some True" by (simp add: TASKS_def)
  have a1: "advance [''RC'', ''MRT'', ''DEMO''] [''RC''] (Suc 0) = 1"
    by (subst advance.simps) simp
  have a2: "advance [''RC'', ''MRT'', ''DEMO''] [''RC''] (Suc (Suc 0)) = 2"
    by (subst advance.simps) simp
  have w0: "completedTasks (state example_world) = []"
    "totalTimeSpent (state example_world) = 0"
    "currentTaskIndex (state example_world) = 0"
    "sequence (state example_world) = [''RC'', ''MRT'', ''DEMO'']"
    "num (startTime (taskTimer example_world)) = 1000"
    by (simp_all add: example_world_def initial_state_def start_def createTimer_def num_def)
  have o: "completedTasks (state completed_once) = [''RC'']"
    "totalTimeSpent (state completed_once) = 60000"
    "currentTaskIndex (state completed_once) = 1"
    "sequence (state completed_once) = [''RC'', ''MRT'', ''DEMO'']"
    "num (startTime (taskTimer completed_once)) = 1000"
    unfolding completed_once_def
    by (simp_all add: completeTask_fields [OF t] w0 a1 startTime_stop)
  have "completedTasks (state completed_twice) = [''RC'']"
    "totalTimeSpent (state completed_twice) = 120500"
    "currentTaskIndex (state completed_twice) = 2"
    "sequence (state completed_twice) = [''RC'', ''MRT'', ''DEMO'']"
    unfolding completed_twice_def
    by (simp_all add: completeTask_fields [OF t] o a2)
  with o show ?thesis by simp
qed

text \<open>
  Claim C5, amended.  A second call of \<open>completeTask(x)\<close> for a known task leaves
  \<open>completedTasks\<close> and \<open>skippedTasks\<close> as the first call left them and keeps the
  sequence, but it stops the task timer again, adds the timer's elapsed time (the
  time of the call minus the timer's start) to \<open>totalTimeSpent\<close> once more, and moves
  \<open>currentTaskIndex\<close> at least one position further.
\<close>

theorem completeTask_twice:
  assumes "TASKS x \<noteq> None"
  shows "completedTasks (state (completeTask x t2 e2 (completeTask x t1 e1 w)))
           = completedTasks (state (completeTask x t1 e1 w)) \<and>
         skippedTasks (state (completeTask x t2 e2 (completeTask x t1 e1 w)))
           = skippedTasks (state (completeTask x t1 e1 w)) \<and>
         sequence (state (completeTask x t2 e2 (completeTask x t1 e1 w)))
           = sequence (state (completeTask x t1 e1 w)) \<and>
         totalTimeSpent (state (completeTask x t2 e2 (completeTask x t1 e1 w)))
           = totalTimeSpent (state (completeTask x t1 e1 w))
               + (t2 - num (startTime (taskTimer w))) \<and>
         currentTaskIndex (state (completeTask x t1 e1 w))
           < currentTaskIndex (state (completeTask x t2 e2 (completeTask x t1 e1 w)))"
proof -
  obtain sk where t: "TASKS x = Some sk" using assms by auto
  let ?w1 = "completeTask x t1 e1 w"
  have mem: "x \<in> set (completedTasks (state ?w1))"
    by (simp add: completeTask_fields [OF t])
  have "Suc (currentTaskIndex (state ?w1))
          \<le> advance (sequence (state ?w1)) (completedTasks (state ?w1))
               (Suc (currentTaskIndex (state ?w1)))"
    by (rule advance_ge)
  then have idx: "currentTaskIndex (state ?w1)
          < currentTaskIndex (state (completeTask x t2 e2 ?w1))"
    using mem by (simp add: completeTask_fields(4) [OF t, of t2 e2 ?w1])
  have c: "completedTasks (state (completeTask x t2 e2 ?w1)) = completedTasks (state ?w1)"
    using mem by (simp add: completeTask_fields(1) [OF t, of t2 e2 ?w1])
  have s: "skippedTasks (state (completeTask x t2 e2 ?w1)) = skippedTasks (state ?w1)"
    by (simp add: completeTask_fields(2) [OF t])
  have q: "sequence (state (completeTask x t2 e2 ?w1)) = sequence (state ?w1)"
    by (simp add: completeTask_fields(5) [OF t])
  have tt: "totalTimeSpent (state (completeTask x t2 e2 ?w1))
           = totalTimeSpent (state ?w1) + (t2 - num (startTime (taskTimer w)))"
    by (simp add: completeTask_fields(3) [OF t, of t2 e2 ?w1] completeTask_fields(6) [OF t]
        startTime_stop)
  show ?thesis using c s q tt idx by simp
qed

theorem completeTask_twice_witness:
  "completedTasks (state (completeTask ''RC'' 61500 healthy_env
       (completeTask ''RC'' 61000 healthy_env example_world)))
     = completedTasks (state (completeTask ''RC'' 61000 healthy_env example_world)) \<and>
   totalTimeSpent (state (completeTask ''RC'' 61500 healthy_env
       (completeTask ''RC'' 61000 healthy_env example_world)))
     = totalTimeSpent (state (completeTask ''RC'' 61000 healthy_env example_world)) + 60500"
proof -
  have h: "TASKS ''RC'' \<noteq> None" by (simp add: TASKS_def)
  have n: "num (startTime (taskTimer example_world)) = 1000"
    by (simp add: example_world_def start_def createTimer_def num_def)
  show ?thesis
    using completeTask_twice [OF h, of 61500 healthy_env 61000 healthy_env example_world]
    by (simp add: n)
qed

lemma saveState_localStorage_failure:
  assumes "sessionCode (state w) \<noteq> []" "ls_setItem_throws e"
  shows "sheet_received (saveState now e w) = sheet_received w \<and>
         shim_received (saveState now e w) = shim_received w \<and>
         localStorage (saveState now e w) = localStorage w"
  using assms by (simp add: saveState_def saveState_try_def Let_def)

lemma saveState_firestore_rejection_isolated:
  assumes "sessionCode (state w) \<noteq> []" "db_present e" "\<not> db_set_throws e"
    "db_set_rejects e" "\<not> ls_setItem_throws e" "shim e = None" "sheets_url e"
    "\<not> fetch_fails e"
  shows "localStorage (saveState now e w) (''study_'' @ sessionCode (state w))
           = Some (State_JSON ((state w)\<lparr> st_lastActivity := Some now \<rparr>)) \<and>
         sheet_received (saveState now e w) =
           sheet_received w @
             [\<lparr> action = ''save_state'', p_sessionCode = sessionCode (state w),
                p_state = Some ((state w)\<lparr> st_lastActivity := Some now \<rparr>) \<rparr>]"
  using assms by (simp add: saveState_def saveState_try_def Let_def sendToSheets_def)

text \<open>
  Claim C8.  With a \<open>localStorage\<close> whose \<open>setItem\<close> throws, \<open>saveState\<close> has written the
  document store, the exception is caught and nothing reaches the caller, but the
  write to the sheet endpoint that follows in the same \<open>try\<close> block is skipped, although
  that backend is configured and healthy; in the browser without the failure the same
  call delivers it.
\<close>

theorem saveState_localStorage_failure_skips_sheet:
  "firestore (saveState 5000 quota_env example_world) ''ABCD2345'' \<noteq> None \<and>
   localStorage (saveState 5000 quota_env example_world) ''study_ABCD2345'' = None \<and>
   sheets_url quota_env \<and> \<not> fetch_fails quota_env \<and>
   sheet_received (saveState 5000 quota_env example_world) = [] \<and>
   console (saveState 5000 quota_env example_world) = [''Could not save state''] \<and>
   length (sheet_received (saveState 5000 healthy_env example_world)) = 1"
  by (simp add: saveState_def saveState_try_def Let_def sendToSheets_def quota_env_def
      healthy_env_def example_world_def initial_state_def)

lemma createNewSession_unfold:
  assumes v: "valid_params p"
  shows "\<exists>st. state (createNewSession p now e w) = st \<and>
           st\<lparr> st_lastActivity := Some now \<rparr> = st \<and>
           sessionCode st = generateCode (in_random p) \<and> sessionCode st \<noteq> [] \<and>
           sequenceIndex st = sessionSeed (generateCode (in_random p)) \<and>
           sequence st = sessionSequence (in_mobile p) (generateCode (in_random p)) \<and>
           isMobile st = in_mobile p \<and>
           completedTasks st = completedTasks (state w) \<and>
           skippedTasks st = skippedTasks (state w) \<and>
           createNewSession p now e w =
             sendToSheets \<lparr> action = ''session_created'', p_sessionCode = sessionCode st,
                            p_state = None \<rparr> e (saveState now e (w\<lparr> state := st \<rparr>))"
proof -
  have rnd: "\<forall>i<8. 0 \<le> in_random p i \<and> in_random p i < 1"
    using v by (simp add: valid_params_def)
  have "length (generateCode (in_random p)) = 8"
    using generateCode_shape [OF rnd] by simp
  then have ne: "generateCode (in_random p) \<noteq> []" by auto
  define st where "st = (state w)\<lparr>
       sessionCode := generateCode (in_random p),
       participantID := toUpperCase (trim (in_first p)) @ toUpperCase (trim (in_last p))
                          @ ''_'' @ slice_last 4 (toString now),
       email := trim (in_email p),
       hearingStatus := in_hearing p,
       fluency := in_fluency p,
       consentCode := trim (in_consentCode p),
       consentConfirmed := in_consent p,
       sequenceIndex := \<bar>hashCode (generateCode (in_random p))\<bar>,
       sequence := ensureDemographicsLast
          (if in_mobile p then shuffleWithSeed MOBILE_TASKS \<bar>hashCode (generateCode (in_random p))\<bar>
           else shuffleWithSeed DESKTOP_TASKS \<bar>hashCode (generateCode (in_random p))\<bar>),
       isMobile := in_mobile p,
       st_startTime := Some now,
       st_lastActivity := Some now \<rparr>"
  have code0: "sessionCode st = generateCode (in_random p)"
    by (simp add: st_def)
  have ne0: "sessionCode st \<noteq> []" using ne code0 by simp
  have st0: "st\<lparr> st_lastActivity := Some now \<rparr> = st"
    by (simp add: st_def)
  have sv: "state (saveState now e (w\<lparr> state := st \<rparr>)) = st"
    using ne0 st0 by (simp add: saveState_state)
  have c: "createNewSession p now e w =
      sendToSheets \<lparr> action = ''session_created'', p_sessionCode = sessionCode st,
                     p_state = None \<rparr> e (saveState now e (w\<lparr> state := st \<rparr>))"
    using v sv by (auto simp: createNewSession_def Let_def valid_params_def st_def)
  have s: "state (createNewSession p now e w) = st"
    by (simp add: c sendToSheets_frame sv)
  have q: "sequence st = sessionSequence (in_mobile p) (generateCode (in_random p))"
    by (simp add: st_def sessionSequence_def sessionSeed_def)
  have i: "sequenceIndex st = sessionSeed (generateCode (in_random p))"
    by (simp add: st_def sessionSeed_def)
  have r: "isMobile st = in_mobile p" "completedTasks st = completedTasks (state w)"
    "skippedTasks st = skippedTasks (state w)"
    by (simp_all add: st_def)
  show ?thesis
    using s st0 code0 ne0 i q r c by blast
qed

text \<open>
  Claim C4.  The code, the seed and the task sequence of a created session do not depend
  on the clock, on what the browser has configured or on what it held before: two
  sessions created from valid form values, at any two times, in any two browsers and
  from any two earlier states, that received the same session code on the same device
  class have the same seed and the same task sequence, namely the hash of the code and
  the seeded shuffle of the device's list with \<open>DEMO\<close> appended.
\<close>

theorem created_sequence_determined_by_code:
  assumes "valid_params p1" and "valid_params p2"
    and "sessionCode (state (createNewSession p1 t1 e1 w1))
           = sessionCode (state (createNewSession p2 t2 e2 w2))"
    and "in_mobile p1 = in_mobile p2"
  shows "sequenceIndex (state (createNewSession p1 t1 e1 w1))
           = sequenceIndex (state (createNewSession p2 t2 e2 w2)) \<and>
         sequence (state (createNewSession p1 t1 e1 w1))
           = sequence (state (createNewSession p2 t2 e2 w2)) \<and>
         sequenceIndex (state (createNewSession p1 t1 e1 w1))
           = \<bar>hashCode (sessionCode (state (createNewSession p1 t1 e1 w1)))\<bar> \<and>
         sequence (state (createNewSession p1 t1 e1 w1))
           = ensureDemographicsLast
               (shuffleWithSeed (if in_mobile p1 then MOBILE_TASKS else DESKTOP_TASKS)
                  \<bar>hashCode (sessionCode (state (createNewSession p1 t1 e1 w1)))\<bar>)"
proof -
  obtain s1 where s1: "state (createNewSession p1 t1 e1 w1) = s1"
    "sessionCode s1 = generateCode (in_random p1)"
    "sequenceIndex s1 = sessionSeed (generateCode (in_random p1))"
    "sequence s1 = sessionSequence (in_mobile p1) (generateCode (in_random p1))"
    using createNewSession_unfold [OF assms(1), of t1 e1 w1] by blast
  obtain s2 where s2: "state (createNewSession p2 t2 e2 w2) = s2"
    "sessionCode s2 = generateCode (in_random p2)"
    "sequenceIndex s2 = sessionSeed (generateCode (in_random p2))"
    "sequence s2 = sessionSequence (in_mobile p2) (generateCode (in_random p2))"
    using createNewSession_unfold [OF assms(2), of t2 e2 w2] by blast
  have eq: "generateCode (in_random p1) = generateCode (in_random p2)"
    using assms(3) s1(1,2) s2(1,2) by simp
  show ?thesis
    using s1 s2 eq assms(4) by (simp add: sessionSeed_def sessionSequence_def)
qed

theorem created_sequence_determined_by_code_witness:
  "sequence (state (createNewSession example_params 1000 healthy_env example_world))
     = sequence (state (createNewSession other_params 987654321 quota_env fresh_world)) \<and>
   sequenceIndex (state (createNewSession example_params 1000 healthy_env example_world))
     = sequenceIndex (state (createNewSession other_params 987654321 quota_env fresh_world))"
proof -
  have v1: "valid_params example_params"
    by (simp add: valid_params_def example_params_def toUpperCase_def trim_def is_space_def)
  have v2: "valid_params other_params"
    by (simp add: valid_params_def other_params_def example_params_def toUpperCase_def
        trim_def is_space_def)
  obtain s1 where s1: "state (createNewSession example_params 1000 healthy_env example_world) = s1"
    "sessionCode s1 = generateCode (in_random example_params)"
    using createNewSession_unfold [OF v1, of 1000 healthy_env example_world] by blast
  obtain s2 where s2: "state (createNewSession other_params 987654321 quota_env fresh_world) = s2"
    "sessionCode s2 = generateCode (in_random other_params)"
    using createNewSession_unfold [OF v2, of 987654321 quota_env fresh_world] by blast
  have c: "sessionCode (state (createNewSession example_params 1000 healthy_env example_world))
      = sessionCode (state (createNewSession other_params 987654321 quota_env fresh_world))"
    using s1 s2 by (simp add: other_params_def example_params_def)
  have m: "in_mobile example_params = in_mobile other_params"
    by (simp add: other_params_def example_params_def)
  show ?thesis
    using created_sequence_determined_by_code [OF v1 v2 c m] by simp
qed

lemma createNewSession_localStorage:
  assumes v: "valid_params p" and "\<not> db_present e" "\<not> ls_setItem_throws e"
  shows "localStorage (createNewSession p now e w) (''study_'' @ generateCode (in_random p))
           = Some (State_JSON (state (createNewSession p now e w)))"
proof -
  obtain st where st: "state (createNewSession p now e w) = st"
    "st\<lparr> st_lastActivity := Some now \<rparr> = st"
    "sessionCode st = generateCode (in_random p)" "sessionCode st \<noteq> []"
    "createNewSession p now e w =
       sendToSheets \<lparr> action = ''session_created'', p_sessionCode = sessionCode st,
                      p_state = None \<rparr> e (saveState now e (w\<lparr> state := st \<rparr>))"
    using createNewSession_unfold [OF v, of now e w] by blast
  have "localStorage (saveState now e (w\<lparr> state := st \<rparr>)) (''study_'' @ sessionCode st)
          = Some (State_JSON st)"
    using assms(2,3) st(2,4)
    by (simp add: saveState_def saveState_try_def Let_def sendToSheets_frame)
  then have "localStorage (createNewSession p now e w) (''study_'' @ sessionCode st)
          = Some (State_JSON st)"
    by (simp add: st(5) sendToSheets_frame)
  then show ?thesis by (simp add: st(1,3))
qed

lemma resumeSession_miss:
  assumes "resume_entry (if lnk \<noteq> [] then lnk else fld) = Some code"
    and "\<not> db_present e" "\<not> sheets_url e"
  shows "resumeSession lnk fld now e w =
           w\<lparr> alerts := alerts w @ [''Session not found. Please check your code.''] \<rparr>"
  using assms by (simp add: resumeSession_def resume_fallback_def Let_def)

text \<open>
  Claim C7, as stated, fails.  In a browser without the document store and without the
  sheet endpoint a session is created from valid form values and saved: its snapshot
  is in the local storage under \<open>study_SSSSSSSS\<close>.  After a reload, resuming with the
  code \<open>SSSSSSSS\<close> does not read the local storage: it alerts that the session was not
  found and leaves the empty initial sequence, not the created one.
\<close>

theorem resume_without_store_counterexample:
  "sessionCode (state created_offline) = ''SSSSSSSS'' \<and>
   localStorage reloaded_offline ''study_SSSSSSSS'' = Some (State_JSON (state created_offline)) \<and>
   alerts resumed_offline = [''Session not found. Please check your code.''] \<and>
   sequence (state resumed_offline) = [] \<and>
   sequence (state created_offline) \<noteq> []"
proof -
  have v: "valid_params example_params"
    by (simp add: valid_params_def example_params_def toUpperCase_def trim_def is_space_def)
  have g: "generateCode (in_random example_params) = ''SSSSSSSS''"
    by (simp add: example_params_def generateCode_def code_chars_def charAt_def)
  have e: "\<not> db_present no_store_env" "\<not> sheets_url no_store_env"
    "\<not> ls_setItem_throws no_store_env"
    by (simp_all add: no_store_env_def healthy_env_def)
  obtain st where st: "state created_offline = st" "sessionCode st = ''SSSSSSSS''"
    "sequence st = sessionSequence (in_mobile example_params) ''SSSSSSSS''"
    using createNewSession_unfold [OF v, of 1000 no_store_env fresh_world] g
    unfolding created_offline_def by auto
  have ls: "localStorage created_offline ''study_SSSSSSSS'' = Some (State_JSON (state created_offline))"
    using createNewSession_localStorage [OF v e(1) e(3), of 1000 fresh_world] g
    unfolding created_offline_def by simp
  have entry: "resume_entry (if ([]::string) \<noteq> [] then [] else ''SSSSSSSS'') = Some ''SSSSSSSS''"
    by (simp add: resume_entry_def trim_def toUpperCase_def CODE_REGEX_test_def
        is_code_char_def is_space_def)
  have r: "resumed_offline =
      reloaded_offline\<lparr> alerts := alerts reloaded_offline
                            @ [''Session not found. Please check your code.''] \<rparr>"
    unfolding resumed_offline_def
    using resumeSession_miss [OF entry e(1) e(2), of 2000 reloaded_offline] .
  have ne: "sequence (state created_offline) \<noteq> []"
    by (simp add: st sessionSequence_def ensureDemographicsLast_def)
  show ?thesis
    using ne ls by (simp add: r st reloaded_offline_def initial_state_def)
qed

lemma createNewSession_saved:
  assumes v: "valid_params p"
    and db: "db_present e" "\<not> db_set_throws e" "\<not> db_set_rejects e"
  shows "sessionCode (state (createNewSession p now e w)) = generateCode (in_random p)"
    and "firestore (createNewSession p now e w) (generateCode (in_random p))
           = Some (state (createNewSession p now e w))"
    and "ensureDemographicsLast (sequence (state (createNewSession p now e w)))
           = sequence (state (createNewSession p now e w))"
proof -
  have rnd: "\<forall>i<8. 0 \<le> in_random p i \<and> in_random p i < 1"
    using v by (simp add: valid_params_def)
  have "length (generateCode (in_random p)) = 8"
    using generateCode_shape [OF rnd] by simp
  then have ne: "generateCode (in_random p) \<noteq> []" by auto
  define st where "st = (state w)\<lparr>
       sessionCode := generateCode (in_random p),
       participantID := toUpperCase (trim (in_first p)) @ toUpperCase (trim (in_last p))
                          @ ''_'' @ slice_last 4 (toString now),
       email := trim (in_email p),
       hearingStatus := in_hearing p,
       fluency := in_fluency p,
       consentCode := trim (in_consentCode p),
       consentConfirmed := in_consent p,
       sequenceIndex := \<bar>hashCode (generateCode (in_random p))\<bar>,
       sequence := ensureDemographicsLast
          (if in_mobile p then shuffleWithSeed MOBILE_TASKS \<bar>hashCode (generateCode (in_random p))\<bar>
           else shuffleWithSeed DESKTOP_TASKS \<bar>hashCode (generateCode (in_random p))\<bar>),
       isMobile := in_mobile p,
       st_startTime := Some now,
       st_lastActivity := Some now \<rparr>"
  define w0 where "w0 = w\<lparr> state := st \<rparr>"
  have c: "createNewSession p now e w =
      sendToSheets \<lparr> action = ''session_created'',
                     p_sessionCode = sessionCode (state (saveState now e w0)),
                     p_state = None \<rparr> e (saveState now e w0)"
    using v by (auto simp: createNewSession_def Let_def valid_params_def st_def w0_def)
  have code0: "sessionCode (state w0) = generateCode (in_random p)"
    by (simp add: w0_def st_def)
  have ne0: "sessionCode (state w0) \<noteq> []" using ne code0 by simp
  have st0: "(state w0)\<lparr> st_lastActivity := Some now \<rparr> = state w0"
    by (simp add: w0_def st_def)
  have s: "state (createNewSession p now e w) = state w0"
    using ne0 st0 by (simp add: c sendToSheets_frame saveState_state)
  show "sessionCode (state (createNewSession p now e w)) = generateCode (in_random p)"
    by (simp add: s code0)
  have "firestore (saveState now e w0) (sessionCode (state w0)) = Some (state w0)"
    using saveState_firestore [OF ne0 db, of now] st0 by simp
  then show "firestore (createNewSession p now e w) (generateCode (in_random p))
           = Some (state (createNewSession p now e w))"
    by (simp add: c sendToSheets_frame saveState_state ne0 st0 code0 [symmetric])
  show "ensureDemographicsLast (sequence (state (createNewSession p now e w)))
           = sequence (state (createNewSession p now e w))"
    by (simp add: s w0_def st_def ensureDemographicsLast_idem)
qed

lemma load_state_fields:
  "sequence (state (load_state doc now e w)) = ensureDemographicsLast (sequence doc)"
  "completedTasks (state (load_state doc now e w)) = completedTasks doc"
  "skippedTasks (state (load_state doc now e w)) = skippedTasks doc"
  "sessionCode (state (load_state doc now e w)) = sessionCode doc"
  "alerts (load_state doc now e w) = alerts w"
  by (simp_all add: load_state_def Let_def saveState_state saveState_frame)

lemma resumeSession_hit:
  assumes "resume_entry (if lnk \<noteq> [] then lnk else fld) = Some code"
    and "db_present e" "\<not> db_get_fails e" "firestore w code = Some doc"
  shows "resumeSession lnk fld now e w = load_state doc now e w"
  using assms by (simp add: resumeSession_def Let_def)

text \<open>
  Claim C7, amended.  Let a session be created from valid form values in a browser
  whose document store is present and accepts the write of the initial save.
  Resuming with the session's code (typed, or from a recovery link), in any browser
  state that sees the same document store, has it present and can read it, loads a
  snapshot with the same session code, sequence, completed tasks and skipped tasks as
  the created one, and raises no alert.
\<close>

theorem create_save_resume_roundtrip:
  assumes "valid_params p"
    and "db_present e1" "\<not> db_set_throws e1" "\<not> db_set_rejects e1"
    and "db_present e2" "\<not> db_get_fails e2"
    and "firestore w' = firestore (createNewSession p t1 e1 w)"
    and "(if lnk \<noteq> [] then lnk else fld) = sessionCode (state (createNewSession p t1 e1 w))"
  shows "sessionCode (state (resumeSession lnk fld t2 e2 w'))
           = sessionCode (state (createNewSession p t1 e1 w)) \<and>
         sequence (state (resumeSession lnk fld t2 e2 w'))
           = sequence (state (createNewSession p t1 e1 w)) \<and>
         completedTasks (state (resumeSession lnk fld t2 e2 w'))
           = completedTasks (state (createNewSession p t1 e1 w)) \<and>
         skippedTasks (state (resumeSession lnk fld t2 e2 w'))
           = skippedTasks (state (createNewSession p t1 e1 w)) \<and>
         alerts (resumeSession lnk fld t2 e2 w') = alerts w'"
proof -
  let ?w1 = "createNewSession p t1 e1 w"
  let ?code = "generateCode (in_random p)"
  note cs = createNewSession_saved [OF assms(1-4), of t1 w]
  have rnd: "\<forall>i<8. 0 \<le> in_random p i \<and> in_random p i < 1"
    using assms(1) by (simp add: valid_params_def)
  have entry: "resume_entry ?code = Some ?code"
    using generateCode_shape [OF rnd] by (simp add: resume_entry_code)
  have inp: "resume_entry (if lnk \<noteq> [] then lnk else fld) = Some ?code"
    using assms(8) entry cs(1) by simp
  have doc: "firestore w' ?code = Some (state ?w1)"
    using assms(7) cs(2) by simp
  have "resumeSession lnk fld t2 e2 w' = load_state (state ?w1) t2 e2 w'"
    using resumeSession_hit [OF inp assms(5,6) doc] .
  then show ?thesis
    by (simp add: load_state_fields cs(3))
qed

theorem create_save_resume_roundtrip_witness:
  "sequence (state (resumeSession [] (sessionCode (state
        (createNewSession example_params 1000 healthy_env example_world)))
      2000 healthy_env (createNewSession example_params 1000 healthy_env example_world)))
     = sequence (state (createNewSession example_params 1000 healthy_env example_world)) \<and>
   alerts (resumeSession [] (sessionCode (state
        (createNewSession example_params 1000 healthy_env example_world)))
      2000 healthy_env (createNewSession example_params 1000 healthy_env example_world))
     = alerts (createNewSession example_params 1000 healthy_env example_world)"
proof -
  have v: "valid_params example_params"
    by (simp add: valid_params_def example_params_def toUpperCase_def trim_def is_space_def)
  have e: "db_present healthy_env" "\<not> db_set_throws healthy_env"
    "\<not> db_set_rejects healthy_env" "\<not> db_get_fails healthy_env"
    by (simp_all add: healthy_env_def)
  have f: "firestore (createNewSession example_params 1000 healthy_env example_world)
      = firestore (createNewSession example_params 1000 healthy_env example_world)" by simp
  have i: "(if ([]::string) \<noteq> [] then []
            else sessionCode (state (createNewSession example_params 1000 healthy_env example_world)))
      = sessionCode (state (createNewSession example_params 1000 healthy_env example_world))"
    by simp
  show ?thesis
    using create_save_resume_roundtrip [OF v e(1) e(2) e(3) e(1) e(4) f i, of 2000] by simp
qed

section \<open>Properties of the backend aggregator\<close>

lemma widen_mono:
  "reaches_down mm t \<Longrightarrow> reaches_down (widen mm x) t"
  "reaches_up mm t \<Longrightarrow> reaches_up (widen mm x) t"
  by (auto simp: reaches_down_def reaches_up_def widen_def split: option.splits)

lemma widen_self:
  "reaches_down (widen mm (Some t)) t" "reaches_up (widen mm (Some t)) t"
  by (auto simp: reaches_down_def reaches_up_def widen_def split: option.splits)

lemma progress_step_mono:
  "reaches_down mm t \<Longrightarrow>
     reaches_down (if pr_sessionCode r \<noteq> code then mm
        else widen (widen (widen mm (pr_timestamp r)) (pr_start r)) (pr_end r)) t"
  "reaches_up mm t \<Longrightarrow>
     reaches_up (if pr_sessionCode r \<noteq> code then mm
        else widen (widen (widen mm (pr_timestamp r)) (pr_start r)) (pr_end r)) t"
  by (simp_all add: widen_mono)

lemma progress_fold_mono:
  "reaches_down mm t \<Longrightarrow>
     reaches_down (foldl (\<lambda>mm r. if pr_sessionCode r \<noteq> code then mm
        else widen (widen (widen mm (pr_timestamp r)) (pr_start r)) (pr_end r)) mm rows) t"
  "reaches_up mm t \<Longrightarrow>
     reaches_up (foldl (\<lambda>mm r. if pr_sessionCode r \<noteq> code then mm
        else widen (widen (widen mm (pr_timestamp r)) (pr_start r)) (pr_end r)) mm rows) t"
  by (induction rows arbitrary: mm) (simp_all add: widen_mono)

lemma progress_fold_member:
  assumes "r \<in> set rows" "pr_sessionCode r = code"
    and "pr_timestamp r = Some t \<or> pr_start r = Some t \<or> pr_end r = Some t"
  shows "reaches_down (foldl (\<lambda>mm r. if pr_sessionCode r \<noteq> code then mm
        else widen (widen (widen mm (pr_timestamp r)) (pr_start r)) (pr_end r)) mm rows) t \<and>
         reaches_up (foldl (\<lambda>mm r. if pr_sessionCode r \<noteq> code then mm
        else widen (widen (widen mm (pr_timestamp r)) (pr_start r)) (pr_end r)) mm rows) t"
  using assms(1)
proof (induction rows arbitrary: mm)
  case Nil
  then show ?case by simp
next
  case (Cons a rows)
  show ?case
  proof (cases "a = r")
    case True
    have "reaches_down (widen (widen (widen mm a) b) c) t \<and>
          reaches_up (widen (widen (widen mm a) b) c) t"
      if "a = Some t \<or> b = Some t \<or> c = Some t" for a b c
      using that by (elim disjE) (simp_all add: widen_self widen_mono)
    then have "reaches_down (widen (widen (widen mm (pr_timestamp r)) (pr_start r)) (pr_end r)) t \<and>
          reaches_up (widen (widen (widen mm (pr_timestamp r)) (pr_start r)) (pr_end r)) t"
      using assms(3) by blast
    then show ?thesis
      using True assms(2) by (simp add: progress_fold_mono)
  next
    case False
    then have "r \<in> set rows" using Cons.prems by simp
    then show ?thesis using Cons.IH by simp
  qed
qed

lemma event_fold_mono:
  "reaches_down mm t \<Longrightarrow>
     reaches_down (foldl (\<lambda>mm r. if ev_sessionCode r \<noteq> code then mm
        else widen mm (ev_timestamp r)) mm rows) t"
  "reaches_up mm t \<Longrightarrow>
     reaches_up (foldl (\<lambda>mm r. if ev_sessionCode r \<noteq> code then mm
        else widen mm (ev_timestamp r)) mm rows) t"
  by (induction rows arbitrary: mm) (simp_all add: widen_mono)

lemma event_fold_member:
  assumes "r \<in> set rows" "ev_sessionCode r = code" "ev_timestamp r = Some t"
  shows "reaches_down (foldl (\<lambda>mm r. if ev_sessionCode r \<noteq> code then mm
        else widen mm (ev_timestamp r)) mm rows) t \<and>
         reaches_up (foldl (\<lambda>mm r. if ev_sessionCode r \<noteq> code then mm
        else widen mm (ev_timestamp r)) mm rows) t"
  using assms(1)
proof (induction rows arbitrary: mm)
  case Nil
  then show ?case by simp
next
  case (Cons a rows)
  show ?case
  proof (cases "a = r")
    case True
    then show ?thesis
      using assms(2,3) by (simp add: event_fold_mono widen_self)
  next
    case False
    then have "r \<in> set rows" using Cons.prems by simp
    then show ?thesis using Cons.IH by simp
  qed
qed

lemma window_ordered:
  "startMs (computeSessionWindowMs ss code now) \<le> endMs (computeSessionWindowMs ss code now)"
  by (simp add: computeSessionWindowMs_def Let_def)

lemma window_from_pair:
  "reaches_down
     (foldl (\<lambda>mm r. if ev_sessionCode r \<noteq> code then mm else widen mm (ev_timestamp r))
        (foldl (\<lambda>mm r. if pr_sessionCode r \<noteq> code then mm
            else widen (widen (widen mm (pr_timestamp r)) (pr_start r)) (pr_end r))
          (case findRowBySessionCode ss code of None \<Rightarrow> (None, None)
           | Some row \<Rightarrow> (created row, lastAct row))
          (Task_Progress ss))
        (Session_Events ss)) t
   \<Longrightarrow> startMs (computeSessionWindowMs ss code now) \<le> t"
  "reaches_up
     (foldl (\<lambda>mm r. if ev_sessionCode r \<noteq> code then mm else widen mm (ev_timestamp r))
        (foldl (\<lambda>mm r. if pr_sessionCode r \<noteq> code then mm
            else widen (widen (widen mm (pr_timestamp r)) (pr_start r)) (pr_end r))
          (case findRowBySessionCode ss code of None \<Rightarrow> (None, None)
           | Some row \<Rightarrow> (created row, lastAct row))
          (Task_Progress ss))
        (Session_Events ss)) t
   \<Longrightarrow> t \<le> endMs (computeSessionWindowMs ss code now)"
  by (auto simp: computeSessionWindowMs_def Let_def reaches_down_def reaches_up_def
      split: option.splits)

lemma window_covers_progress:
  assumes "r \<in> set (Task_Progress ss)" "pr_sessionCode r = code"
    and "pr_timestamp r = Some t \<or> pr_start r = Some t \<or> pr_end r = Some t"
  shows "startMs (computeSessionWindowMs ss code now) \<le> t \<and>
         t \<le> endMs (computeSessionWindowMs ss code now)"
  using progress_fold_member [OF assms] 
  by (intro conjI window_from_pair event_fold_mono) simp_all

lemma window_covers_event:
  assumes "r \<in> set (Session_Events ss)" "ev_sessionCode r = code" "ev_timestamp r = Some t"
  shows "startMs (computeSessionWindowMs ss code now) \<le> t \<and>
         t \<le> endMs (computeSessionWindowMs ss code now)"
  using event_fold_member [OF assms]
  by (intro conjI window_from_pair) simp_all

lemma window_covers_row:
  assumes "findRowBySessionCode ss code = Some row"
  shows "created row = Some t \<Longrightarrow> startMs (computeSessionWindowMs ss code now) \<le> t"
    and "lastAct row = Some t \<Longrightarrow> t \<le> endMs (computeSessionWindowMs ss code now)"
proof -
  assume "created row = Some t"
  then have "reaches_down (case findRowBySessionCode ss code of None \<Rightarrow> (None, None)
           | Some row \<Rightarrow> (created row, lastAct row)) t"
    using assms by (simp add: reaches_down_def)
  then show "startMs (computeSessionWindowMs ss code now) \<le> t"
    by (intro window_from_pair event_fold_mono progress_fold_mono)
next
  assume "lastAct row = Some t"
  then have "reaches_up (case findRowBySessionCode ss code of None \<Rightarrow> (None, None)
           | Some row \<Rightarrow> (created row, lastAct row)) t"
    using assms by (simp add: reaches_up_def)
  then show "t \<le> endMs (computeSessionWindowMs ss code now)"
    by (intro window_from_pair event_fold_mono progress_fold_mono)
qed

lemma positive_sum_fold:
  "foldl (\<lambda>acc r. if pr_sessionCode r \<noteq> code then acc
                    else if f r > 0 then acc + f r else acc) a rows
   = a + sum_list (map f (filter (\<lambda>r. pr_sessionCode r = code \<and> 0 < f r) rows))"
  for f :: "progress_row \<Rightarrow> rat"
  by (induction rows arbitrary: a) (simp_all add: add.assoc)

lemma updateTotalTime_sec_fields:
  "totalSecByWindow (updateTotalTime_sec ss code now row) =
     Math_round_rat ((endMs (computeSessionWindowMs ss code now)
                      - startMs (computeSessionWindowMs ss code now)) / 1000)"
  "activeSec (updateTotalTime_sec ss code now row) =
     sum_list (map pr_active
       (filter (\<lambda>r. pr_sessionCode r = code \<and> 0 < pr_active r) (Task_Progress ss)))"
  "inactiveSec (updateTotalTime_sec ss code now row) =
     sum_list (map pr_inactive
       (filter (\<lambda>r. pr_sessionCode r = code \<and> 0 < pr_inactive r) (Task_Progress ss)))"
  "pausedSec (updateTotalTime_sec ss code now row) = pausedMinExisting row * 60"
proof -
  let ?d = "(endMs (computeSessionWindowMs ss code now)
             - startMs (computeSessionWindowMs ss code now)) / 1000"
  have "0 \<le> ?d" using window_ordered [of ss code now] by simp
  then have "0 \<le> \<lfloor>?d + 1 / 2\<rfloor>" by simp
  then have "max 0 (Math_round_rat ?d) = Math_round_rat ?d"
    by (simp add: Math_round_rat_def)
  then show "totalSecByWindow (updateTotalTime_sec ss code now row) = Math_round_rat ?d"
    by (simp add: updateTotalTime_sec_def Let_def)
qed (simp_all add: updateTotalTime_sec_def Let_def positive_sum_fold)

text \<open>
  Claim C6, as stated, fails.  For a session of 100 seconds with 10 active, 20 inactive
  and no paused seconds the aggregator's idle time is 70 seconds, not
  \<open>100 - 10 - 0 = 90\<close>, and it writes 1 idle minute where 90 seconds would round to 2.
\<close>

theorem idle_time_counterexample:
  "totalSecByWindow (updateTotalTime_sec example_sheets ''ABCD2345'' 0 example_row) = 100 \<and>
   activeSec (updateTotalTime_sec example_sheets ''ABCD2345'' 0 example_row) = 10 \<and>
   pausedSec (updateTotalTime_sec example_sheets ''ABCD2345'' 0 example_row) = 0 \<and>
   idleSec (updateTotalTime_sec example_sheets ''ABCD2345'' 0 example_row) = 70 \<and>
   updateTotalTime example_sheets ''ABCD2345'' 0 =
     Some \<lparr> totalMin = 2, activeMin = 0, idleMin = 1, pausedMin = 0 \<rparr> \<and>
   Math_round_rat (max 0 (100 - 10 - 0) / 60) = 2"
proof -
  have w: "computeSessionWindowMs example_sheets ''ABCD2345'' 0
      = \<lparr> startMs = 1700000000000, endMs = 1700000100000 \<rparr>"
    by (simp add: computeSessionWindowMs_def findRowBySessionCode_def example_sheets_def
        example_row_def widen_def Let_def)
  have t: "updateTotalTime_sec example_sheets ''ABCD2345'' 0 example_row
      = \<lparr> totalSecByWindow = 100, activeSec = 10, inactiveSec = 20, pausedSec = 0,
          idleSec = 70 \<rparr>"
  proof -
    have tp: "Task_Progress example_sheets =
        [\<lparr> pr_timestamp = Some 1700000050000, pr_sessionCode = ''ABCD2345'',
           pr_start = Some 1700000020000, pr_end = Some 1700000050000,
           pr_active = 10, pr_inactive = 20 \<rparr>]"
      by (simp add: example_sheets_def)
    have pm: "pausedMinExisting example_row = 0"
      by (simp add: example_row_def)
    show ?thesis
      by (simp add: updateTotalTime_sec_def w tp pm Let_def Math_round_rat_def floor_eq_iff)
  qed
  have f: "findRowBySessionCode example_sheets ''ABCD2345'' = Some example_row"
    by (simp add: findRowBySessionCode_def example_sheets_def)
  show ?thesis
    by (simp add: t updateTotalTime_def f Math_round_rat_def floor_eq_iff)
qed

text \<open>
  Claim C6, amended.  The aggregator's idle time is the total duration minus the summed
  active time minus the recorded paused time minus the summed inactive time, floored
  at zero.  The total is the rounded number of seconds between the start and the end
  of the session window, which encloses every parsed timestamp of the session's task
  rows and events, the row's creation date from below and its last activity from
  above; the active and inactive sums run over the positive cells of the session's
  task rows; the paused time is the row's paused minutes times 60.
\<close>

theorem idle_is_remainder:
  "idleSec (updateTotalTime_sec ss code now row) =
     max 0 (totalSecByWindow (updateTotalTime_sec ss code now row)
            - activeSec (updateTotalTime_sec ss code now row)
            - pausedSec (updateTotalTime_sec ss code now row)
            - inactiveSec (updateTotalTime_sec ss code now row)) \<and>
   totalSecByWindow (updateTotalTime_sec ss code now row) =
     Math_round_rat ((endMs (computeSessionWindowMs ss code now)
                      - startMs (computeSessionWindowMs ss code now)) / 1000) \<and>
   activeSec (updateTotalTime_sec ss code now row) =
     sum_list (map pr_active
       (filter (\<lambda>r. pr_sessionCode r = code \<and> 0 < pr_active r) (Task_Progress ss))) \<and>
   inactiveSec (updateTotalTime_sec ss code now row) =
     sum_list (map pr_inactive
       (filter (\<lambda>r. pr_sessionCode r = code \<and> 0 < pr_inactive r) (Task_Progress ss))) \<and>
   pausedSec (updateTotalTime_sec ss code now row) = pausedMinExisting row * 60 \<and>
   startMs (computeSessionWindowMs ss code now) \<le> endMs (computeSessionWindowMs ss code now) \<and>
   (\<forall>r\<in>set (Task_Progress ss). \<forall>t. pr_sessionCode r = code \<and>
        (pr_timestamp r = Some t \<or> pr_start r = Some t \<or> pr_end r = Some t) \<longrightarrow>
        startMs (computeSessionWindowMs ss code now) \<le> t \<and>
        t \<le> endMs (computeSessionWindowMs ss code now)) \<and>
   (\<forall>r\<in>set (Session_Events ss). \<forall>t. ev_sessionCode r = code \<and> ev_timestamp r = Some t \<longrightarrow>
        startMs (computeSessionWindowMs ss code now) \<le> t \<and>
        t \<le> endMs (computeSessionWindowMs ss code now)) \<and>
   (findRowBySessionCode ss code = Some row \<longrightarrow>
      (\<forall>t. created row = Some t \<longrightarrow> startMs (computeSessionWindowMs ss code now) \<le> t) \<and>
      (\<forall>t. lastAct row = Some t \<longrightarrow> t \<le> endMs (computeSessionWindowMs ss code now)) \<and>
      (\<exists>m. updateTotalTime ss code now = Some m \<and>
           idleMin m = Math_round_rat (idleSec (updateTotalTime_sec ss code now row) / 60)))"
proof -
  have idle: "idleSec (updateTotalTime_sec ss code now row) =
     max 0 (totalSecByWindow (updateTotalTime_sec ss code now row)
            - activeSec (updateTotalTime_sec ss code now row)
            - pausedSec (updateTotalTime_sec ss code now row)
            - inactiveSec (updateTotalTime_sec ss code now row))"
    by (simp add: updateTotalTime_sec_def Let_def)
  have p: "\<forall>r\<in>set (Task_Progress ss). \<forall>t. pr_sessionCode r = code \<and>
        (pr_timestamp r = Some t \<or> pr_start r = Some t \<or> pr_end r = Some t) \<longrightarrow>
        startMs (computeSessionWindowMs ss code now) \<le> t \<and>
        t \<le> endMs (computeSessionWindowMs ss code now)"
    using window_covers_progress by blast
  have ev: "\<forall>r\<in>set (Session_Events ss). \<forall>t. ev_sessionCode r = code \<and> ev_timestamp r = Some t \<longrightarrow>
        startMs (computeSessionWindowMs ss code now) \<le> t \<and>
        t \<le> endMs (computeSessionWindowMs ss code now)"
    using window_covers_event by blast
  have row: "findRowBySessionCode ss code = Some row \<longrightarrow>
      (\<forall>t. created row = Some t \<longrightarrow> startMs (computeSessionWindowMs ss code now) \<le> t) \<and>
      (\<forall>t. lastAct row = Some t \<longrightarrow> t \<le> endMs (computeSessionWindowMs ss code now)) \<and>
      (\<exists>m. updateTotalTime ss code now = Some m \<and>
           idleMin m = Math_round_rat (idleSec (updateTotalTime_sec ss code now row) / 60))"
    using window_covers_row by (auto simp: updateTotalTime_def Let_def)
  show ?thesis
    using idle updateTotalTime_sec_fields [of ss code now row] window_ordered [of ss code now]
      p ev row
    by blast
qed

theorem idle_is_remainder_witness:
  "idleSec (updateTotalTime_sec example_sheets ''ABCD2345'' 0 example_row) =
     max 0 (totalSecByWindow (updateTotalTime_sec example_sheets ''ABCD2345'' 0 example_row)
            - activeSec (updateTotalTime_sec example_sheets ''ABCD2345'' 0 example_row)
            - pausedSec (updateTotalTime_sec example_sheets ''ABCD2345'' 0 example_row)
            - inactiveSec (updateTotalTime_sec example_sheets ''ABCD2345'' 0 example_row)) \<and>
   startMs (computeSessionWindowMs example_sheets ''ABCD2345'' 0) \<le> 1700000020000 \<and>
   1700000060000 \<le> endMs (computeSessionWindowMs example_sheets ''ABCD2345'' 0) \<and>
   startMs (computeSessionWindowMs example_sheets ''ABCD2345'' 0) \<le> 1700000000000 \<and>
   1700000100000 \<le> endMs (computeSessionWindowMs example_sheets ''ABCD2345'' 0)"
proof -
  have f: "findRowBySessionCode example_sheets ''ABCD2345'' = Some example_row"
    by (simp add: findRowBySessionCode_def example_sheets_def)
  have r: "created example_row = Some 1700000000000" "lastAct example_row = Some 1700000100000"
    by (simp_all add: example_row_def)
  have p: "\<lparr> pr_timestamp = Some 1700000050000, pr_sessionCode = ''ABCD2345'',
             pr_start = Some 1700000020000, pr_end = Some 1700000050000,
             pr_active = 10, pr_inactive = 20 \<rparr> \<in> set (Task_Progress example_sheets)"
    by (simp add: example_sheets_def)
  have e: "\<lparr> ev_timestamp = Some 1700000060000, ev_sessionCode = ''ABCD2345'' \<rparr>
             \<in> set (Session_Events example_sheets)"
    by (simp add: example_sheets_def)
  show ?thesis
    using idle_is_remainder [of example_sheets "''ABCD2345''" 0 example_row] f r p e
    by fastforce
qed

end
